theory Spec2Isabelle
  imports Main
begin

section \<open>The sleeping teaching assistant: model of TA\_Sim.c\<close>

text \<open>
  The program has one main thread, one TA thread and \<open>num_students\<close> student threads.
  They share five global integers, one mutex and one counting semaphore. The model is an
  interleaving transition system over a record of these globals plus one program counter
  per thread.

  Granularity. A step of the model is one of: a \<open>pthread_mutex_lock\<close> (enabled only
  while the mutex is free), the body of a critical section together with its
  \<open>pthread_mutex_unlock\<close>, a \<open>sem_post\<close>, a \<open>sem_wait\<close> (enabled only while the
  count is positive), a \<open>pthread_create\<close> of a student, a \<open>pthread_join\<close> (enabled only
  once the joined thread has ended). Every access to the shared integers in the source is
  between a lock and its unlock, so a critical section's body is one step of its thread.

  Thread creation can fail. For the TA the source returns 1, which is part of the start-up.
  For a student the source prints a message and goes on with the next student; the handle
  of that student is never set, and \<open>main\<close> later passes it to \<open>pthread_join\<close> all the same.
  Whether a creation succeeds is decided by the environment, so the schedule decides it:
  the schedule entry \<open>MainCreateFails\<close> is the step of \<open>main\<close> in which \<open>pthread_create\<close>
  returns nonzero. C leaves the join of a handle that was never set undefined; the model
  takes the outcome in which \<open>pthread_join\<close> returns an error at once, which the source
  does not look at.

  Not modelled: \<open>sleep\<close>, \<open>rand\<close> and \<open>srand\<close> (the model has no clock: a sleeping thread is
  a thread that is not scheduled) and the narration printed outside a critical section.
  The lines printed inside a critical section are kept as the event log \<open>stdout_log\<close>,
  in program order.

  Both listings of the program in TA\_Sim.c have the same synchronisation code; they differ
  only in the arguments of \<open>sleep\<close> and \<open>rand\<close>.
\<close>

subsection \<open>Shared state and program counters\<close>

definition HELP_REQUESTS_PER_STUDENT :: nat where
  "HELP_REQUESTS_PER_STUDENT = 3"

text \<open>
  Program counter of \<open>main\<close> after start-up: in the creation loop with counter \<open>i\<close>, in the
  join loop with counter \<open>i\<close>, holding the mutex before \<open>all_done = 1\<close>, before the final
  \<open>sem_post\<close>, in \<open>pthread_join(ta_handle)\<close>, returned.
\<close>

datatype main_pc = M_Create nat | M_Join nat | M_Locked | M_Post | M_JoinTA | M_Exit

text \<open>
  Program counter of \<open>ta_thread\<close>: in \<open>sem_wait\<close>, returned from \<open>sem_wait\<close> and about to
  lock, holding the mutex at the exit test, after \<open>break\<close>.
\<close>

datatype ta_pc = TA_Sleeping | TA_Woken | TA_Locked | TA_Exited

text \<open>
  Program counter of \<open>student_thread\<close>: at the head of the \<open>for\<close> loop with counter \<open>i\<close>
  (programming, then locking), holding the mutex at the chair test of cycle \<open>i\<close>, seated and
  about to \<open>sem_post\<close> in cycle \<open>i\<close>, holding the mutex to mark itself finished, ended.
  \<open>S_NotCreated\<close> marks the slot of a student whose \<open>pthread_create\<close> failed: there is no
  thread, and the handle in \<open>student_handles\<close> was never set.
\<close>

datatype student_pc =
  S_Loop nat | S_Locked nat | S_Post nat | S_FinLocked | S_Exited | S_NotCreated

text \<open>The lines printed while the mutex is held, with their \<open>%d\<close> arguments.\<close>

datatype event =
    Sitting int int
  | HallwayFull int
  | Helping int
  | WokeNoStudents
  | DoneForDay int int

text \<open>
  The entries of a schedule: the thread that steps, or \<open>MainCreateFails\<close> for the step of
  \<open>main\<close> in which the \<open>pthread_create\<close> of the next student fails.
\<close>

datatype tid = Main | TA | Student nat | MainCreateFails

record sim_state =
  num_students :: int
  num_chairs :: int
  waiting_students :: int
  students_finished :: int
  all_done :: int
  mutex_locked :: bool
  students_sem :: nat
  main_at :: main_pc
  ta_at :: ta_pc
  student_at :: "student_pc list"
  stdout_log :: "event list"

subsection \<open>Start-up of main\<close>

datatype startup_error = InvalidInput | AllocFailed | TACreateFailed

text \<open>Every failing path of \<open>main\<close> is \<open>return 1\<close>.\<close>

fun exit_status :: "startup_error \<Rightarrow> int" where
  "exit_status InvalidInput = 1"
| "exit_status AllocFailed = 1"
| "exit_status TACreateFailed = 1"

text \<open>
  The globals as initialised, the semaphore at 0, the TA thread created and in its first
  \<open>sem_wait\<close>, no student thread yet, \<open>main\<close> entering the creation loop.
\<close>

definition init_state :: "int \<Rightarrow> int \<Rightarrow> sim_state" where
  "init_state n c =
     \<lparr> num_students = n, num_chairs = c, waiting_students = 0, students_finished = 0,
       all_done = 0, mutex_locked = False, students_sem = 0,
       main_at = M_Create 0, ta_at = TA_Sleeping, student_at = [], stdout_log = [] \<rparr>"

text \<open>
  \<open>main\<close> up to the creation of the TA thread. \<open>n\<close> and \<open>c\<close> are the two integers read
  by \<open>scanf\<close>; \<open>alloc_ok\<close> says that both \<open>malloc\<close> calls returned non-null and \<open>ta_created\<close>
  that \<open>pthread_create\<close> of the TA returned 0.
\<close>

definition main_startup :: "int \<Rightarrow> int \<Rightarrow> bool \<Rightarrow> bool \<Rightarrow> startup_error + sim_state" where
  "main_startup n c alloc_ok ta_created =
     (if n \<le> 0 \<or> c < 0 then Inl InvalidInput
      else if \<not> alloc_ok then Inl AllocFailed
      else if \<not> ta_created then Inl TACreateFailed
      else Inr (init_state n c))"

subsection \<open>The three thread bodies\<close>

text \<open>The critical section of the shutdown in \<open>main\<close>: \<open>all_done = 1\<close>.\<close>

definition shutdown_force :: "sim_state \<Rightarrow> sim_state" where
  "shutdown_force s = s\<lparr>all_done := 1\<rparr>"

definition main_step :: "sim_state \<Rightarrow> sim_state option" where
  "main_step s =
     (case main_at s of
        M_Create i \<Rightarrow>
          Some (if int i < num_students s
                then s\<lparr>student_at := student_at s @ [S_Loop 0], main_at := M_Create (Suc i)\<rparr>
                else s\<lparr>main_at := M_Join 0\<rparr>)
      | M_Join i \<Rightarrow>
          if int i < num_students s
          then (if i < length (student_at s)
                     \<and> (student_at s ! i = S_Exited \<or> student_at s ! i = S_NotCreated)
                then Some (s\<lparr>main_at := M_Join (Suc i)\<rparr>) else None)
          else (if mutex_locked s then None
                else Some (s\<lparr>mutex_locked := True, main_at := M_Locked\<rparr>))
      | M_Locked \<Rightarrow> Some ((shutdown_force s)\<lparr>mutex_locked := False, main_at := M_Post\<rparr>)
      | M_Post \<Rightarrow> Some (s\<lparr>students_sem := Suc (students_sem s), main_at := M_JoinTA\<rparr>)
      | M_JoinTA \<Rightarrow> if ta_at s = TA_Exited then Some (s\<lparr>main_at := M_Exit\<rparr>) else None
      | M_Exit \<Rightarrow> None)"

text \<open>
  The pass through the creation loop in which \<open>pthread_create\<close> returns nonzero: the source
  prints a message (outside any critical section) and increments \<open>i\<close>.
\<close>

definition main_create_fails :: "sim_state \<Rightarrow> sim_state option" where
  "main_create_fails s =
     (case main_at s of
        M_Create i \<Rightarrow>
          if int i < num_students s
          then Some (s\<lparr>student_at := student_at s @ [S_NotCreated],
                       main_at := M_Create (Suc i)\<rparr>)
          else None
      | M_Join i \<Rightarrow> None
      | M_Locked \<Rightarrow> None
      | M_Post \<Rightarrow> None
      | M_JoinTA \<Rightarrow> None
      | M_Exit \<Rightarrow> None)"

definition ta_step :: "sim_state \<Rightarrow> sim_state option" where
  "ta_step s =
     (case ta_at s of
        TA_Sleeping \<Rightarrow>
          if 0 < students_sem s
          then Some (s\<lparr>students_sem := students_sem s - 1, ta_at := TA_Woken\<rparr>) else None
      | TA_Woken \<Rightarrow>
          if mutex_locked s then None
          else Some (s\<lparr>mutex_locked := True, ta_at := TA_Locked\<rparr>)
      | TA_Locked \<Rightarrow>
          Some (if all_done s \<noteq> 0 \<and> waiting_students s = 0
                then s\<lparr>mutex_locked := False, ta_at := TA_Exited\<rparr>
                else if 0 < waiting_students s
                then s\<lparr>waiting_students := waiting_students s - 1,
                       stdout_log := stdout_log s @ [Helping (waiting_students s - 1)],
                       mutex_locked := False, ta_at := TA_Sleeping\<rparr>
                else s\<lparr>stdout_log := stdout_log s @ [WokeNoStudents],
                       mutex_locked := False, ta_at := TA_Sleeping\<rparr>)
      | TA_Exited \<Rightarrow> None)"

text \<open>
  The student thread with index \<open>k\<close> in \<open>student_handles\<close>; its \<open>id\<close> is \<open>k + 1\<close>.
\<close>

definition student_step :: "nat \<Rightarrow> sim_state \<Rightarrow> sim_state option" where
  "student_step k s =
     (if length (student_at s) \<le> k then None
      else case student_at s ! k of
        S_Loop i \<Rightarrow>
          if mutex_locked s then None
          else Some (s\<lparr>mutex_locked := True,
                       student_at := (student_at s)
                         [k := (if i < HELP_REQUESTS_PER_STUDENT then S_Locked i else S_FinLocked)]\<rparr>)
      | S_Locked i \<Rightarrow>
          Some (if waiting_students s < num_chairs s
                then s\<lparr>waiting_students := waiting_students s + 1,
                       stdout_log := stdout_log s @ [Sitting (int k + 1) (waiting_students s + 1)],
                       mutex_locked := False,
                       student_at := (student_at s)[k := S_Post i]\<rparr>
                else s\<lparr>stdout_log := stdout_log s @ [HallwayFull (int k + 1)],
                       mutex_locked := False,
                       student_at := (student_at s)[k := S_Loop (Suc i)]\<rparr>)
      | S_Post i \<Rightarrow>
          Some (s\<lparr>students_sem := Suc (students_sem s),
                  student_at := (student_at s)[k := S_Loop (Suc i)]\<rparr>)
      | S_FinLocked \<Rightarrow>
          Some (s\<lparr>students_finished := students_finished s + 1,
                  stdout_log := stdout_log s @ [DoneForDay (int k + 1) (students_finished s + 1)],
                  all_done := (if students_finished s + 1 = num_students s then 1 else all_done s),
                  mutex_locked := False,
                  student_at := (student_at s)[k := S_Exited]\<rparr>)
      | S_Exited \<Rightarrow> None
      | S_NotCreated \<Rightarrow> None)"

subsection \<open>Interleavings\<close>

text \<open>
  One step of thread \<open>t\<close>; \<open>None\<close> when the thread is blocked, has ended or does not exist.
\<close>

fun fire :: "tid \<Rightarrow> sim_state \<Rightarrow> sim_state option" where
  "fire Main s = main_step s"
| "fire TA s = ta_step s"
| "fire (Student k) s = student_step k s"
| "fire MainCreateFails s = main_create_fails s"

text \<open>
  A run under a schedule: the scheduler picks a thread; a thread that cannot step keeps
  its place. The states reachable by the program are the \<open>exec sched s0\<close>.
\<close>

fun exec :: "tid list \<Rightarrow> sim_state \<Rightarrow> sim_state" where
  "exec [] s = s"
| "exec (t # ts) s = exec ts (case fire t s of None \<Rightarrow> s | Some s' \<Rightarrow> s')"

text \<open>The number of steps really taken under a schedule.\<close>

fun steps_taken :: "tid list \<Rightarrow> sim_state \<Rightarrow> nat" where
  "steps_taken [] s = 0"
| "steps_taken (t # ts) s =
     (case fire t s of None \<Rightarrow> steps_taken ts s | Some s' \<Rightarrow> Suc (steps_taken ts s'))"


text \<open>
  The threads that exist in a state, and the states in which none of them can step. A
  failing creation is a step of \<open>main\<close> in a state where \<open>main\<close> can also step with a
  successful creation, so it needs no entry of its own here.
\<close>

definition threads :: "sim_state \<Rightarrow> tid list" where
  "threads s = Main # TA # map Student [0 ..< length (student_at s)]"

definition stuck :: "sim_state \<Rightarrow> bool" where
  "stuck s = list_all (\<lambda>t. fire t s = None) (threads s)"

subsection \<open>Quantities read off a state\<close>

definition count_if :: "('a \<Rightarrow> bool) \<Rightarrow> 'a list \<Rightarrow> nat" where
  "count_if P xs = length (filter P xs)"

fun holds_lock :: "student_pc \<Rightarrow> bool" where
  "holds_lock (S_Locked i) = True"
| "holds_lock S_FinLocked = True"
| "holds_lock p = False"

fun at_post :: "student_pc \<Rightarrow> bool" where
  "at_post (S_Post i) = True"
| "at_post p = False"

fun retired :: "student_pc \<Rightarrow> bool" where
  "retired S_Exited = True"
| "retired p = False"

text \<open>A slot that a \<open>pthread_join\<close> of \<open>main\<close> gets past: ended, or never created.\<close>

fun joinable :: "student_pc \<Rightarrow> bool" where
  "joinable S_Exited = True"
| "joinable S_NotCreated = True"
| "joinable p = False"

text \<open>The number of chair tests a student has completed.\<close>

fun attempts_done :: "student_pc \<Rightarrow> nat" where
  "attempts_done (S_Loop i) = i"
| "attempts_done (S_Locked i) = i"
| "attempts_done (S_Post i) = Suc i"
| "attempts_done S_FinLocked = HELP_REQUESTS_PER_STUDENT"
| "attempts_done S_Exited = HELP_REQUESTS_PER_STUDENT"
| "attempts_done S_NotCreated = 0"

fun cycle_ok :: "student_pc \<Rightarrow> bool" where
  "cycle_ok (S_Loop i) = (i \<le> HELP_REQUESTS_PER_STUDENT)"
| "cycle_ok (S_Locked i) = (i < HELP_REQUESTS_PER_STUDENT)"
| "cycle_ok (S_Post i) = (i < HELP_REQUESTS_PER_STUDENT)"
| "cycle_ok p = True"

fun is_sitting :: "event \<Rightarrow> bool" where
  "is_sitting (Sitting k w) = True"
| "is_sitting e = False"

fun is_full :: "event \<Rightarrow> bool" where
  "is_full (HallwayFull k) = True"
| "is_full e = False"

fun is_helping :: "event \<Rightarrow> bool" where
  "is_helping (Helping w) = True"
| "is_helping e = False"

text \<open>Successful admissions, rejections and seat releases printed so far.\<close>

definition admissions :: "sim_state \<Rightarrow> nat" where
  "admissions s = count_if is_sitting (stdout_log s)"

definition rejections :: "sim_state \<Rightarrow> nat" where
  "rejections s = count_if is_full (stdout_log s)"

definition releases :: "sim_state \<Rightarrow> nat" where
  "releases s = count_if is_helping (stdout_log s)"

text \<open>
  Wake-ups the TA can still consume without a further \<open>sem_post\<close>: the semaphore count,
  plus one while the TA has returned from \<open>sem_wait\<close> and not yet finished its test.
\<close>

fun token_in_hand :: "ta_pc \<Rightarrow> nat" where
  "token_in_hand TA_Woken = 1"
| "token_in_hand TA_Locked = 1"
| "token_in_hand p = 0"

definition pending_wakes :: "sim_state \<Rightarrow> nat" where
  "pending_wakes s = students_sem s + token_in_hand (ta_at s)"

text \<open>Whether \<open>main\<close> has done its final \<open>sem_post\<close>.\<close>

fun final_wake_posted :: "main_pc \<Rightarrow> bool" where
  "final_wake_posted M_JoinTA = True"
| "final_wake_posted M_Exit = True"
| "final_wake_posted p = False"

text \<open>Whether \<open>main\<close> has left the join loop, that is, has joined every student.\<close>

fun joined_all :: "main_pc \<Rightarrow> bool" where
  "joined_all (M_Create i) = False"
| "joined_all (M_Join i) = False"
| "joined_all p = True"

definition all_retired :: "sim_state \<Rightarrow> bool" where
  "all_retired s =
     (int (length (student_at s)) = num_students s \<and> list_all retired (student_at s))"

text \<open>Every slot is filled and no student thread is running any more.\<close>

definition all_joinable :: "sim_state \<Rightarrow> bool" where
  "all_joinable s =
     (int (length (student_at s)) = num_students s \<and> list_all joinable (student_at s))"

text \<open>Whether every \<open>pthread_create\<close> of a student so far has succeeded.\<close>

definition all_created :: "sim_state \<Rightarrow> bool" where
  "all_created s = (S_NotCreated \<notin> set (student_at s))"

definition lock_holders :: "sim_state \<Rightarrow> nat" where
  "lock_holders s =
     (if main_at s = M_Locked then 1 else 0) + (if ta_at s = TA_Locked then 1 else 0)
     + count_if holds_lock (student_at s)"

subsection \<open>Progress measure\<close>

fun main_weight :: "int \<Rightarrow> main_pc \<Rightarrow> nat" where
  "main_weight n (M_Create i) = 27 * nat (n - int i) + nat n + 8"
| "main_weight n (M_Join i) = nat (n - int i) + 7"
| "main_weight n M_Locked = 6"
| "main_weight n M_Post = 5"
| "main_weight n M_JoinTA = 1"
| "main_weight n M_Exit = 0"

fun ta_weight :: "ta_pc \<Rightarrow> nat" where
  "ta_weight TA_Sleeping = 0"
| "ta_weight TA_Woken = 2"
| "ta_weight TA_Locked = 1"
| "ta_weight TA_Exited = 0"

fun student_weight :: "student_pc \<Rightarrow> nat" where
  "student_weight (S_Loop i) = 8 * (HELP_REQUESTS_PER_STUDENT - i) + 2"
| "student_weight (S_Locked i) = 8 * (HELP_REQUESTS_PER_STUDENT - Suc i) + 7"
| "student_weight (S_Post i) = 8 * (HELP_REQUESTS_PER_STUDENT - Suc i) + 6"
| "student_weight S_FinLocked = 1"
| "student_weight S_Exited = 0"
| "student_weight S_NotCreated = 0"

definition progress :: "sim_state \<Rightarrow> nat" where
  "progress s =
     main_weight (num_students s) (main_at s) + ta_weight (ta_at s)
     + 3 * students_sem s + sum_list (map student_weight (student_at s))"

subsection \<open>Invariants\<close>

definition inv_room :: "sim_state \<Rightarrow> bool" where
  "inv_room s = (0 \<le> waiting_students s \<and> waiting_students s \<le> num_chairs s)"

definition inv_mutex :: "sim_state \<Rightarrow> bool" where
  "inv_mutex s = (lock_holders s = (if mutex_locked s then 1 else 0))"

fun inv_main_pc :: "sim_state \<Rightarrow> main_pc \<Rightarrow> bool" where
  "inv_main_pc s (M_Create i) = (length (student_at s) = i \<and> int i \<le> num_students s)"
| "inv_main_pc s (M_Join i) =
     (int (length (student_at s)) = num_students s \<and> int i \<le> num_students s
      \<and> list_all joinable (take i (student_at s)))"
| "inv_main_pc s p = all_joinable s"

definition inv_main :: "sim_state \<Rightarrow> bool" where
  "inv_main s =
     (0 < num_students s \<and> inv_main_pc s (main_at s)
      \<and> (main_at s = M_Exit \<longrightarrow> ta_at s = TA_Exited)
      \<and> (main_at s \<in> {M_Post, M_JoinTA, M_Exit} \<longrightarrow> all_done s = 1))"

definition inv_finished :: "sim_state \<Rightarrow> bool" where
  "inv_finished s =
     (students_finished s = int (count_if retired (student_at s))
      \<and> (all_done s = 0 \<or> all_done s = 1)
      \<and> (students_finished s = num_students s \<longrightarrow> all_done s = 1)
      \<and> (all_done s = 1 \<longrightarrow>
            students_finished s = num_students s \<or> main_at s \<in> {M_Post, M_JoinTA, M_Exit}))"

definition inv_tokens :: "sim_state \<Rightarrow> bool" where
  "inv_tokens s =
     (if ta_at s = TA_Exited
      then students_sem s = 0 \<and> waiting_students s = 0 \<and> final_wake_posted (main_at s)
      else int (pending_wakes s) + int (count_if at_post (student_at s))
           = waiting_students s + (if final_wake_posted (main_at s) then 1 else 0))"

definition inv_cycles :: "sim_state \<Rightarrow> bool" where
  "inv_cycles s = list_all cycle_ok (student_at s)"

definition inv_log :: "sim_state \<Rightarrow> bool" where
  "inv_log s =
     (int (admissions s) = int (releases s) + waiting_students s
      \<and> admissions s + rejections s = sum_list (map attempts_done (student_at s))
      \<and> (0 < admissions s \<longrightarrow> 0 < num_chairs s)
      \<and> WokeNoStudents \<notin> set (stdout_log s))"

definition invariant :: "sim_state \<Rightarrow> bool" where
  "invariant s =
     (inv_room s \<and> inv_mutex s \<and> inv_main s \<and> inv_finished s \<and> inv_tokens s
      \<and> inv_cycles s \<and> inv_log s)"

subsection \<open>Sample schedules\<close>

text \<open>
  One student, one chair, the TA serving each admission before the next attempt; the
  schedule stops with the TA at its last exit test.
\<close>

definition served_run :: "tid list" where
  "served_run =
     [Main, Main,
      Student 0, Student 0, Student 0, TA, TA, TA,
      Student 0, Student 0, Student 0, TA, TA, TA,
      Student 0, Student 0, Student 0, TA, TA, TA,
      Student 0, Student 0,
      Main, Main, Main, Main,
      TA, TA]"

text \<open>The same run up to the student holding the mutex to mark itself finished.\<close>

definition cycles_run :: "tid list" where
  "cycles_run =
     [Main, Main,
      Student 0, Student 0, Student 0, TA, TA, TA,
      Student 0, Student 0, Student 0, TA, TA, TA,
      Student 0, Student 0, Student 0, TA, TA, TA,
      Student 0]"


text \<open>One student, no chair; the schedule stops with the TA at its exit test.\<close>

definition empty_room_run :: "tid list" where
  "empty_room_run =
     [Main, Main,
      Student 0, Student 0,
      Student 0, Student 0,
      Student 0, Student 0,
      Student 0, Student 0,
      Main, Main, Main, Main,
      TA, TA]"

text \<open>
  Two students, one chair, the \<open>pthread_create\<close> of the second student failing; the first
  student is served three times and finishes, \<open>main\<close> gets past both joins, forces
  \<open>all_done\<close> and posts, the TA takes the exit, \<open>main\<close> joins the TA.
\<close>

definition failed_create_run :: "tid list" where
  "failed_create_run =
     [Main, MainCreateFails, Main,
      Student 0, Student 0, Student 0, TA, TA, TA,
      Student 0, Student 0, Student 0, TA, TA, TA,
      Student 0, Student 0, Student 0, TA, TA, TA,
      Student 0, Student 0,
      Main, Main,
      Main, Main, Main,
      TA, TA, TA,
      Main]"

section \<open>Start-up validation\<close>

text \<open>
  C7. Whatever the allocation and thread-creation outcomes, an input with
  \<open>num_students \<le> 0\<close> or \<open>num_chairs < 0\<close> makes \<open>main\<close> return the invalid-input error,
  whose exit status is nonzero, and no state with threads is produced; with a positive
  number of students, zero chairs are accepted and the run starts.
\<close>

theorem startup_validation:
  "(n \<le> 0 \<or> c < 0 \<longrightarrow>
      main_startup n c alloc_ok ta_created = Inl InvalidInput \<and> exit_status InvalidInput \<noteq> 0)
   \<and> (0 < n \<longrightarrow> main_startup n 0 True True = Inr (init_state n 0))"
  by (simp add: main_startup_def)

theorem startup_validation_witness:
  "((0::int) \<le> 0 \<or> (5::int) < 0)
   \<and> main_startup 0 5 True True = Inl InvalidInput \<and> exit_status InvalidInput \<noteq> 0
   \<and> main_startup 4 (-1) True True = Inl InvalidInput
   \<and> (0::int) < 5 \<and> main_startup 5 0 True True = Inr (init_state 5 0)"
  using startup_validation [of 0 5 True True] startup_validation [of 4 "-1" True True]
    startup_validation [of 5 0 True True]
  by simp

section \<open>Lists and counting\<close>

lemma count_if_update:
  "k < length xs \<Longrightarrow>
     count_if P (xs[k := y]) + (if P (xs ! k) then 1 else 0) = count_if P xs + (if P y then 1 else 0)"
proof (induction xs arbitrary: k)
  case Nil
  then show ?case by simp
next
  case (Cons x xs)
  show ?case
  proof (cases k)
    case 0
    then show ?thesis by (simp add: count_if_def)
  next
    case (Suc j)
    with Cons.prems have "j < length xs" by simp
    from Cons.IH [OF this] Suc show ?thesis by (simp add: count_if_def)
  qed
qed

lemma sum_map_update:
  "k < length xs \<Longrightarrow>
     sum_list (map f (xs[k := y])) + f (xs ! k) = sum_list (map f xs) + (f y :: nat)"
proof (induction xs arbitrary: k)
  case Nil
  then show ?case by simp
next
  case (Cons x xs)
  show ?case
  proof (cases k)
    case 0
    then show ?thesis by simp
  next
    case (Suc j)
    with Cons.prems have "j < length xs" by simp
    from Cons.IH [OF this] Suc show ?thesis by simp
  qed
qed

lemma sum_map_update_less:
  assumes "k < length xs" and "f y + d < (f (xs ! k) :: nat)"
  shows "sum_list (map f (xs[k := y])) + d < sum_list (map f xs)"
  using sum_map_update [OF assms(1), of f y] assms(2) by arith

lemma count_if_snoc: "count_if P (xs @ [x]) = count_if P xs + (if P x then 1 else 0)"
  by (simp add: count_if_def)

lemma count_if_all: "list_all P xs \<Longrightarrow> count_if P xs = length xs"
  by (induction xs) (simp_all add: count_if_def)

lemma count_if_less: "k < length xs \<Longrightarrow> \<not> P (xs ! k) \<Longrightarrow> count_if P xs < length xs"
  unfolding count_if_def
  by (metis length_filter_less nth_mem)

lemma count_if_pos: "k < length xs \<Longrightarrow> P (xs ! k) \<Longrightarrow> 0 < count_if P xs"
  unfolding count_if_def
  by (metis filter_empty_conv length_greater_0_conv nth_mem)

lemma count_if_update_same:
  "k < length xs \<Longrightarrow> P y = P (xs ! k) \<Longrightarrow> count_if P (xs[k := y]) = count_if P xs"
  using count_if_update [of k xs P y] by (simp split: if_splits)

lemma count_if_update_gain:
  "k < length xs \<Longrightarrow> P y \<Longrightarrow> \<not> P (xs ! k) \<Longrightarrow> count_if P (xs[k := y]) = Suc (count_if P xs)"
  using count_if_update [of k xs P y] by simp

lemma count_if_update_lose:
  "k < length xs \<Longrightarrow> \<not> P y \<Longrightarrow> P (xs ! k) \<Longrightarrow> Suc (count_if P (xs[k := y])) = count_if P xs"
  using count_if_update [of k xs P y] by simp

lemma list_all_nth: "list_all P xs \<Longrightarrow> k < length xs \<Longrightarrow> P (xs ! k)"
  by (simp add: list_all_length)

lemma list_all_update: "list_all P xs \<Longrightarrow> P y \<Longrightarrow> list_all P (xs[k := y])"
  by (induction xs arbitrary: k) (auto split: nat.splits)

lemma take_update_outside:
  assumes "list_all P (take i xs)" "k < length xs" "\<not> P (xs ! k)"
  shows "take i (xs[k := y]) = take i xs"
proof -
  have "i \<le> k"
  proof (rule ccontr)
    assume "\<not> i \<le> k"
    then have "k < length (take i xs)" and "take i xs ! k = xs ! k"
      using assms(2) by simp_all
    with list_all_nth [OF assms(1), of k] assms(3) show False by simp
  qed
  then show ?thesis by simp
qed

section \<open>The steps of each thread, case by case\<close>

lemma main_step_cases [consumes 1, case_names create created join lock force post join_ta]:
  assumes "main_step s = Some s'"
  obtains
    (create) i where "main_at s = M_Create i" "int i < num_students s"
      "s' = s\<lparr>student_at := student_at s @ [S_Loop 0], main_at := M_Create (Suc i)\<rparr>"
  | (created) i where "main_at s = M_Create i" "\<not> int i < num_students s"
      "s' = s\<lparr>main_at := M_Join 0\<rparr>"
  | (join) i where "main_at s = M_Join i" "int i < num_students s"
      "i < length (student_at s)" "joinable (student_at s ! i)"
      "s' = s\<lparr>main_at := M_Join (Suc i)\<rparr>"
  | (lock) i where "main_at s = M_Join i" "\<not> int i < num_students s" "\<not> mutex_locked s"
      "s' = s\<lparr>mutex_locked := True, main_at := M_Locked\<rparr>"
  | (force) "main_at s = M_Locked"
      "s' = s\<lparr>all_done := 1, mutex_locked := False, main_at := M_Post\<rparr>"
  | (post) "main_at s = M_Post"
      "s' = s\<lparr>students_sem := Suc (students_sem s), main_at := M_JoinTA\<rparr>"
  | (join_ta) "main_at s = M_JoinTA" "ta_at s = TA_Exited" "s' = s\<lparr>main_at := M_Exit\<rparr>"
proof (cases "main_at s")
  case (M_Create i)
  with assms show thesis
    by (cases "int i < num_students s")
       (simp_all add: main_step_def create [of i] created [of i])
next
  case (M_Join i)
  with assms show thesis
    by (cases "int i < num_students s")
       (auto simp: main_step_def join [of i] lock [of i] split: if_splits)
next
  case M_Locked
  with assms show thesis
    by (intro force) (simp_all add: main_step_def shutdown_force_def)
next
  case M_Post
  with assms show thesis by (intro post) (simp_all add: main_step_def)
next
  case M_JoinTA
  with assms show thesis by (intro join_ta) (simp_all add: main_step_def split: if_splits)
next
  case M_Exit
  with assms show thesis by (simp add: main_step_def)
qed

lemma main_create_fails_cases [consumes 1, case_names fail]:
  assumes "main_create_fails s = Some s'"
  obtains i where "main_at s = M_Create i" "int i < num_students s"
    "s' = s\<lparr>student_at := student_at s @ [S_NotCreated], main_at := M_Create (Suc i)\<rparr>"
proof (cases "main_at s")
  case (M_Create i)
  with assms show thesis
    by (cases "int i < num_students s") (simp_all add: main_create_fails_def that [of i])
next
  case (M_Join i)
  with assms show thesis by (simp add: main_create_fails_def)
next
  case M_Locked
  with assms show thesis by (simp add: main_create_fails_def)
next
  case M_Post
  with assms show thesis by (simp add: main_create_fails_def)
next
  case M_JoinTA
  with assms show thesis by (simp add: main_create_fails_def)
next
  case M_Exit
  with assms show thesis by (simp add: main_create_fails_def)
qed

lemma ta_step_cases [consumes 1, case_names wake lock leave serve spurious]:
  assumes "ta_step s = Some s'"
  obtains
    (wake) "ta_at s = TA_Sleeping" "0 < students_sem s"
      "s' = s\<lparr>students_sem := students_sem s - 1, ta_at := TA_Woken\<rparr>"
  | (lock) "ta_at s = TA_Woken" "\<not> mutex_locked s"
      "s' = s\<lparr>mutex_locked := True, ta_at := TA_Locked\<rparr>"
  | (leave) "ta_at s = TA_Locked" "all_done s \<noteq> 0" "waiting_students s = 0"
      "s' = s\<lparr>mutex_locked := False, ta_at := TA_Exited\<rparr>"
  | (serve) "ta_at s = TA_Locked" "0 < waiting_students s"
      "s' = s\<lparr>waiting_students := waiting_students s - 1,
               stdout_log := stdout_log s @ [Helping (waiting_students s - 1)],
               mutex_locked := False, ta_at := TA_Sleeping\<rparr>"
  | (spurious) "ta_at s = TA_Locked" "\<not> (all_done s \<noteq> 0 \<and> waiting_students s = 0)"
      "\<not> 0 < waiting_students s"
      "s' = s\<lparr>stdout_log := stdout_log s @ [WokeNoStudents],
               mutex_locked := False, ta_at := TA_Sleeping\<rparr>"
proof (cases "ta_at s")
  case TA_Sleeping
  with assms show thesis by (intro wake) (simp_all add: ta_step_def split: if_splits)
next
  case TA_Woken
  with assms show thesis by (intro lock) (simp_all add: ta_step_def split: if_splits)
next
  case TA_Locked
  show thesis
  proof (cases "all_done s \<noteq> 0 \<and> waiting_students s = 0")
    case True
    with assms TA_Locked show thesis by (intro leave) (simp_all add: ta_step_def)
  next
    case False
    with assms TA_Locked show thesis
      by (cases "0 < waiting_students s")
         (simp_all add: ta_step_def serve spurious)
  qed
next
  case TA_Exited
  with assms show thesis by (simp add: ta_step_def)
qed

lemma student_step_cases [consumes 1, case_names lock lock_fin admit reject post finish]:
  assumes "student_step k s = Some s'"
  obtains
    (lock) i where "k < length (student_at s)" "student_at s ! k = S_Loop i"
      "i < HELP_REQUESTS_PER_STUDENT" "\<not> mutex_locked s"
      "s' = s\<lparr>mutex_locked := True, student_at := (student_at s)[k := S_Locked i]\<rparr>"
  | (lock_fin) i where "k < length (student_at s)" "student_at s ! k = S_Loop i"
      "\<not> i < HELP_REQUESTS_PER_STUDENT" "\<not> mutex_locked s"
      "s' = s\<lparr>mutex_locked := True, student_at := (student_at s)[k := S_FinLocked]\<rparr>"
  | (admit) i where "k < length (student_at s)" "student_at s ! k = S_Locked i"
      "waiting_students s < num_chairs s"
      "s' = s\<lparr>waiting_students := waiting_students s + 1,
               stdout_log := stdout_log s @ [Sitting (int k + 1) (waiting_students s + 1)],
               mutex_locked := False, student_at := (student_at s)[k := S_Post i]\<rparr>"
  | (reject) i where "k < length (student_at s)" "student_at s ! k = S_Locked i"
      "\<not> waiting_students s < num_chairs s"
      "s' = s\<lparr>stdout_log := stdout_log s @ [HallwayFull (int k + 1)],
               mutex_locked := False, student_at := (student_at s)[k := S_Loop (Suc i)]\<rparr>"
  | (post) i where "k < length (student_at s)" "student_at s ! k = S_Post i"
      "s' = s\<lparr>students_sem := Suc (students_sem s),
               student_at := (student_at s)[k := S_Loop (Suc i)]\<rparr>"
  | (finish) "k < length (student_at s)" "student_at s ! k = S_FinLocked"
      "s' = s\<lparr>students_finished := students_finished s + 1,
               stdout_log := stdout_log s @ [DoneForDay (int k + 1) (students_finished s + 1)],
               all_done := (if students_finished s + 1 = num_students s then 1 else all_done s),
               mutex_locked := False, student_at := (student_at s)[k := S_Exited]\<rparr>"
proof -
  from assms have len: "k < length (student_at s)"
    by (simp add: student_step_def split: if_splits)
  show thesis
  proof (cases "student_at s ! k")
    case (S_Loop i)
    show thesis
    proof (cases "i < HELP_REQUESTS_PER_STUDENT")
      case True
      with assms len S_Loop show thesis
        by (intro lock [of i]) (simp_all add: student_step_def split: if_splits)
    next
      case False
      with assms len S_Loop show thesis
        by (intro lock_fin [of i]) (simp_all add: student_step_def split: if_splits)
    qed
  next
    case (S_Locked i)
    show thesis
    proof (cases "waiting_students s < num_chairs s")
      case True
      with assms len S_Locked show thesis
        by (intro admit [of i]) (simp_all add: student_step_def)
    next
      case False
      with assms len S_Locked show thesis
        by (intro reject [of i]) (simp_all add: student_step_def)
    qed
  next
    case (S_Post i)
    with assms len show thesis
      by (intro post [of i]) (simp_all add: student_step_def)
  next
    case S_FinLocked
    with assms len show thesis
      by (intro finish) (simp_all add: student_step_def)
  next
    case S_Exited
    with assms len show thesis by (simp add: student_step_def)
  next
    case S_NotCreated
    with assms len show thesis by (simp add: student_step_def)
  qed
qed

section \<open>Every step makes progress\<close>

lemma progress_main: "main_step s = Some s' \<Longrightarrow> progress s' < progress s"
  by (cases rule: main_step_cases)
     (auto simp: progress_def HELP_REQUESTS_PER_STUDENT_def)

lemma progress_create_fails: "main_create_fails s = Some s' \<Longrightarrow> progress s' < progress s"
  by (cases rule: main_create_fails_cases) (auto simp: progress_def)

lemma progress_ta: "ta_step s = Some s' \<Longrightarrow> progress s' < progress s"
  by (cases rule: ta_step_cases) (auto simp: progress_def)

lemma progress_student:
  assumes "student_step k s = Some s'"
  shows "progress s' < progress s"
  using assms
proof (cases rule: student_step_cases)
  case (lock i)
  then show ?thesis
    using sum_map_update_less [of k "student_at s" student_weight "S_Locked i" 0]
    by (simp add: progress_def HELP_REQUESTS_PER_STUDENT_def)
next
  case (lock_fin i)
  then show ?thesis
    using sum_map_update_less [of k "student_at s" student_weight S_FinLocked 0]
    by (simp add: progress_def)
next
  case (admit i)
  then show ?thesis
    using sum_map_update_less [of k "student_at s" student_weight "S_Post i" 0]
    by (simp add: progress_def)
next
  case (reject i)
  then show ?thesis
    using sum_map_update_less [of k "student_at s" student_weight "S_Loop (Suc i)" 0]
    by (simp add: progress_def)
next
  case (post i)
  then show ?thesis
    using sum_map_update_less [of k "student_at s" student_weight "S_Loop (Suc i)" 3]
    by (simp add: progress_def)
next
  case finish
  then show ?thesis
    using sum_map_update_less [of k "student_at s" student_weight S_Exited 0]
    by (simp add: progress_def)
qed

lemma progress_step: "fire t s = Some s' \<Longrightarrow> progress s' < progress s"
  by (cases t)
     (simp_all add: progress_main progress_ta progress_student progress_create_fails)

lemma steps_taken_bound: "steps_taken sched s \<le> progress s"
proof (induction sched arbitrary: s)
  case Nil
  then show ?case by simp
next
  case (Cons t ts)
  show ?case
  proof (cases "fire t s")
    case None
    then show ?thesis using Cons.IH [of s] by simp
  next
    case (Some s')
    then show ?thesis using Cons.IH [of s'] progress_step [OF Some] by simp
  qed
qed

section \<open>The invariants are preserved by every step\<close>

lemma inv_room_fire:
  assumes "inv_room s" and "fire t s = Some s'"
  shows "inv_room s'"
proof (cases t)
  case Main
  with assms(2) have "main_step s = Some s'" by simp
  then show ?thesis using assms(1)
    by (cases rule: main_step_cases) (simp_all add: inv_room_def)
next
  case TA
  with assms(2) have "ta_step s = Some s'" by simp
  then show ?thesis using assms(1)
    by (cases rule: ta_step_cases) (simp_all add: inv_room_def)
next
  case (Student k)
  with assms(2) have "student_step k s = Some s'" by simp
  then show ?thesis using assms(1)
    by (cases rule: student_step_cases) (simp_all add: inv_room_def)
next
  case MainCreateFails
  with assms(2) have "main_create_fails s = Some s'" by simp
  then show ?thesis using assms(1)
    by (cases rule: main_create_fails_cases) (simp_all add: inv_room_def)
qed

lemma inv_cycles_fire:
  assumes "inv_cycles s" and "fire t s = Some s'"
  shows "inv_cycles s'"
proof (cases t)
  case Main
  with assms(2) have "main_step s = Some s'" by simp
  then show ?thesis using assms(1)
    by (cases rule: main_step_cases) (simp_all add: inv_cycles_def)
next
  case TA
  with assms(2) have "ta_step s = Some s'" by simp
  then show ?thesis using assms(1)
    by (cases rule: ta_step_cases) (simp_all add: inv_cycles_def)
next
  case (Student k)
  with assms(2) have st: "student_step k s = Some s'" by simp
  from st have "k < length (student_at s)" by (cases rule: student_step_cases)
  with assms(1) have ok: "cycle_ok (student_at s ! k)"
    by (simp add: inv_cycles_def list_all_nth)
  from st show ?thesis using assms(1) ok
    by (cases rule: student_step_cases)
       (simp_all add: inv_cycles_def list_all_update)
next
  case MainCreateFails
  with assms(2) have "main_create_fails s = Some s'" by simp
  then show ?thesis using assms(1)
    by (cases rule: main_create_fails_cases) (simp_all add: inv_cycles_def)
qed

lemma inv_mutex_fire:
  assumes "inv_mutex s" and "fire t s = Some s'"
  shows "inv_mutex s'"
proof (cases t)
  case Main
  with assms(2) have "main_step s = Some s'" by simp
  then show ?thesis using assms(1)
    by (cases rule: main_step_cases)
       (simp_all add: inv_mutex_def lock_holders_def count_if_snoc split: if_splits)
next
  case TA
  with assms(2) have "ta_step s = Some s'" by simp
  then show ?thesis using assms(1)
    by (cases rule: ta_step_cases)
       (simp_all add: inv_mutex_def lock_holders_def split: if_splits)
next
  case (Student k)
  with assms(2) have st: "student_step k s = Some s'" by simp
  from st show ?thesis
  proof (cases rule: student_step_cases)
    case (lock i)
    then show ?thesis using assms(1)
      by (simp add: inv_mutex_def lock_holders_def count_if_update_gain split: if_splits)
  next
    case (lock_fin i)
    then show ?thesis using assms(1)
      by (simp add: inv_mutex_def lock_holders_def count_if_update_gain split: if_splits)
  next
    case (admit i)
    then show ?thesis
      using assms(1) count_if_update_lose [of k "student_at s" holds_lock "S_Post i"]
      by (simp add: inv_mutex_def lock_holders_def split: if_splits)
  next
    case (reject i)
    then show ?thesis
      using assms(1) count_if_update_lose [of k "student_at s" holds_lock "S_Loop (Suc i)"]
      by (simp add: inv_mutex_def lock_holders_def split: if_splits)
  next
    case (post i)
    then show ?thesis using assms(1)
      by (simp add: inv_mutex_def lock_holders_def count_if_update_same)
  next
    case finish
    then show ?thesis
      using assms(1) count_if_update_lose [of k "student_at s" holds_lock S_Exited]
      by (simp add: inv_mutex_def lock_holders_def split: if_splits)
  qed
next
  case MainCreateFails
  with assms(2) have "main_create_fails s = Some s'" by simp
  then show ?thesis using assms(1)
    by (cases rule: main_create_fails_cases) (simp_all add: inv_mutex_def lock_holders_def count_if_snoc split: if_splits)
qed

lemma student_step_live:
  assumes "student_step k s = Some s'"
  shows "k < length (student_at s) \<and> \<not> joinable (student_at s ! k)"
  using assms by (cases rule: student_step_cases) simp_all

lemma inv_main_pc_cong:
  "student_at s' = student_at s \<Longrightarrow> num_students s' = num_students s \<Longrightarrow>
     inv_main_pc s' p = inv_main_pc s p"
  by (cases p) (simp_all add: all_joinable_def)

lemma inv_main_length: "inv_main s \<Longrightarrow> int (length (student_at s)) \<le> num_students s"
  by (cases "main_at s") (simp_all add: inv_main_def all_joinable_def)

lemma inv_main_posted:
  "inv_main s \<Longrightarrow> joined_all (main_at s) \<Longrightarrow> all_joinable s"
  by (cases "main_at s") (simp_all add: inv_main_def)

lemma all_joinable_nth:
  "all_joinable s \<Longrightarrow> k < length (student_at s) \<Longrightarrow> joinable (student_at s ! k)"
  by (simp add: all_joinable_def list_all_nth)

lemma inv_main_pc_update:
  assumes "inv_main_pc s p" "k < length (student_at s)" "\<not> joinable (student_at s ! k)"
    "student_at s' = (student_at s)[k := q]" "num_students s' = num_students s"
  shows "inv_main_pc s' p"
proof (cases p)
  case (M_Create i)
  with assms show ?thesis by simp
next
  case (M_Join i)
  with assms show ?thesis by (simp add: take_update_outside [of joinable])
next
  case M_Locked
  with assms all_joinable_nth [of s k] show ?thesis by simp
next
  case M_Post
  with assms all_joinable_nth [of s k] show ?thesis by simp
next
  case M_JoinTA
  with assms all_joinable_nth [of s k] show ?thesis by simp
next
  case M_Exit
  with assms all_joinable_nth [of s k] show ?thesis by simp
qed

lemma inv_main_fire:
  assumes "inv_main s" and "fire t s = Some s'"
  shows "inv_main s'"
proof (cases t)
  case Main
  with assms(2) have "main_step s = Some s'" by simp
  then show ?thesis
  proof (cases rule: main_step_cases)
    case (create i)
    then show ?thesis using assms(1) by (simp add: inv_main_def)
  next
    case (created i)
    then show ?thesis using assms(1) by (simp add: inv_main_def)
  next
    case (join i)
    then show ?thesis using assms(1)
      by (simp add: inv_main_def take_Suc_conv_app_nth)
  next
    case (lock i)
    with assms(1) have "i = length (student_at s)" by (simp add: inv_main_def)
    with lock show ?thesis using assms(1) by (simp add: inv_main_def all_joinable_def)
  next
    case force
    then show ?thesis using assms(1) by (simp add: inv_main_def all_joinable_def)
  next
    case post
    then show ?thesis using assms(1) by (simp add: inv_main_def all_joinable_def)
  next
    case join_ta
    then show ?thesis using assms(1) by (simp add: inv_main_def all_joinable_def)
  qed
next
  case TA
  with assms(2) have "ta_step s = Some s'" by simp
  then have same: "student_at s' = student_at s \<and> num_students s' = num_students s
      \<and> main_at s' = main_at s \<and> all_done s' = all_done s \<and> ta_at s \<noteq> TA_Exited"
    by (cases rule: ta_step_cases) simp_all
  then have "inv_main_pc s' (main_at s') = inv_main_pc s (main_at s)"
    using inv_main_pc_cong [of s' s "main_at s"] by simp
  with same assms(1) show ?thesis by (simp add: inv_main_def)
next
  case (Student k)
  with assms(2) have st: "student_step k s = Some s'" by simp
  note live = student_step_live [OF st]
  have pc: "inv_main_pc s (main_at s)" using assms(1) by (simp add: inv_main_def)
  from st show ?thesis
    using assms(1) inv_main_pc_update [OF pc conjunct1 [OF live] conjunct2 [OF live], of s']
    by (cases rule: student_step_cases) (simp_all add: inv_main_def)
next
  case MainCreateFails
  with assms(2) have "main_create_fails s = Some s'" by simp
  then show ?thesis using assms(1)
    by (cases rule: main_create_fails_cases) (simp_all add: inv_main_def)
qed

lemma inv_finished_fire:
  assumes "inv_finished s" and "inv_main s" and "fire t s = Some s'"
  shows "inv_finished s'"
proof (cases t)
  case Main
  with assms(3) have "main_step s = Some s'" by simp
  then show ?thesis
  proof (cases rule: main_step_cases)
    case (create i)
    then show ?thesis using assms(1) by (auto simp: inv_finished_def count_if_snoc)
  next
    case (created i)
    then show ?thesis using assms(1) by (auto simp: inv_finished_def)
  next
    case (join i)
    then show ?thesis using assms(1) by (auto simp: inv_finished_def)
  next
    case (lock i)
    then show ?thesis using assms(1) by (auto simp: inv_finished_def)
  next
    case force
    then show ?thesis using assms(1) by (auto simp: inv_finished_def)
  next
    case post
    then show ?thesis using assms(1) by (auto simp: inv_finished_def)
  next
    case join_ta
    then show ?thesis using assms(1) by (auto simp: inv_finished_def)
  qed
next
  case TA
  with assms(3) have "ta_step s = Some s'" by simp
  then show ?thesis using assms(1)
    by (cases rule: ta_step_cases) (auto simp: inv_finished_def)
next
  case (Student k)
  with assms(3) have st: "student_step k s = Some s'" by simp
  note live = student_step_live [OF st]
  from st show ?thesis
  proof (cases rule: student_step_cases)
    case (lock i)
    then show ?thesis using assms(1)
      by (auto simp: inv_finished_def count_if_update_same)
  next
    case (lock_fin i)
    then show ?thesis using assms(1)
      by (auto simp: inv_finished_def count_if_update_same)
  next
    case (admit i)
    then show ?thesis using assms(1)
      by (auto simp: inv_finished_def count_if_update_same)
  next
    case (reject i)
    then show ?thesis using assms(1)
      by (auto simp: inv_finished_def count_if_update_same)
  next
    case (post i)
    then show ?thesis using assms(1)
      by (auto simp: inv_finished_def count_if_update_same)
  next
    case finish
    then have "\<not> retired (student_at s ! k)" by simp
    with live have "count_if retired (student_at s) < length (student_at s)"
      using count_if_less [of k "student_at s" retired] by simp
    with inv_main_length [OF assms(2)] assms(1)
    have lt: "students_finished s < num_students s" by (auto simp: inv_finished_def)
    with finish show ?thesis using assms(1)
      by (auto simp: inv_finished_def count_if_update_gain)
  qed
next
  case MainCreateFails
  with assms(3) have "main_create_fails s = Some s'" by simp
  then show ?thesis using assms(1)
    by (cases rule: main_create_fails_cases) (auto simp: inv_finished_def count_if_snoc)
qed

lemma posted_joined: "final_wake_posted p \<Longrightarrow> joined_all p"
  by (cases p) simp_all

lemma no_student_after_final_wake:
  assumes "inv_main s" and "student_step k s = Some s'"
  shows "\<not> joined_all (main_at s)"
proof
  assume "joined_all (main_at s)"
  with assms(1) have "all_joinable s" by (rule inv_main_posted)
  with student_step_live [OF assms(2)] all_joinable_nth [of s k] show False by simp
qed

lemma no_spurious_wake:
  assumes "inv_tokens s" "inv_room s" "inv_main s" "ta_at s = TA_Locked"
    "\<not> (all_done s \<noteq> 0 \<and> waiting_students s = 0)" "\<not> 0 < waiting_students s"
  shows False
proof -
  from assms(2,6) have w: "waiting_students s = 0" by (simp add: inv_room_def)
  with assms(5) have d: "all_done s = 0" by simp
  from assms(1,4) w have "final_wake_posted (main_at s)"
    by (simp add: inv_tokens_def pending_wakes_def split: if_splits)
  with assms(3) have "all_done s = 1"
    by (cases "main_at s") (simp_all add: inv_main_def)
  with d show False by simp
qed

lemma inv_tokens_fire:
  assumes "inv_tokens s" and "inv_room s" and "inv_main s" and "fire t s = Some s'"
  shows "inv_tokens s'"
proof (cases t)
  case Main
  with assms(4) have "main_step s = Some s'" by simp
  then show ?thesis using assms(1)
    by (cases rule: main_step_cases)
       (auto simp: inv_tokens_def pending_wakes_def count_if_snoc split: if_splits)
next
  case TA
  with assms(4) have "ta_step s = Some s'" by simp
  then show ?thesis
  proof (cases rule: ta_step_cases)
    case wake
    then show ?thesis using assms(1) by (simp add: inv_tokens_def pending_wakes_def)
  next
    case lock
    then show ?thesis using assms(1) by (simp add: inv_tokens_def pending_wakes_def)
  next
    case leave
    then show ?thesis using assms(1)
      by (simp add: inv_tokens_def pending_wakes_def split: if_splits)
  next
    case serve
    then show ?thesis using assms(1) by (simp add: inv_tokens_def pending_wakes_def)
  next
    case spurious
    with no_spurious_wake [OF assms(1-3)] show ?thesis by simp
  qed
next
  case (Student k)
  with assms(4) have st: "student_step k s = Some s'" by simp
  have np: "\<not> final_wake_posted (main_at s)"
    using no_student_after_final_wake [OF assms(3) st] posted_joined by blast
  with assms(1) have live: "ta_at s \<noteq> TA_Exited"
    by (auto simp: inv_tokens_def)
  from st show ?thesis
  proof (cases rule: student_step_cases)
    case (lock i)
    then show ?thesis using assms(1) live
      by (simp add: inv_tokens_def pending_wakes_def count_if_update_same)
  next
    case (lock_fin i)
    then show ?thesis using assms(1) live
      by (simp add: inv_tokens_def pending_wakes_def count_if_update_same)
  next
    case (admit i)
    then show ?thesis using assms(1) live
      by (simp add: inv_tokens_def pending_wakes_def count_if_update_gain)
  next
    case (reject i)
    then show ?thesis using assms(1) live
      by (simp add: inv_tokens_def pending_wakes_def count_if_update_same)
  next
    case (post i)
    then show ?thesis
      using assms(1) live count_if_update_lose [of k "student_at s" at_post "S_Loop (Suc i)"]
      by (simp add: inv_tokens_def pending_wakes_def)
  next
    case finish
    then show ?thesis using assms(1) live
      by (simp add: inv_tokens_def pending_wakes_def count_if_update_same)
  qed
next
  case MainCreateFails
  with assms(4) have "main_create_fails s = Some s'" by simp
  then show ?thesis using assms(1)
    by (cases rule: main_create_fails_cases) (auto simp: inv_tokens_def pending_wakes_def count_if_snoc split: if_splits)
qed

lemma inv_log_fire:
  assumes "inv_log s" and "inv_cycles s" and "inv_room s" and "inv_tokens s" and "inv_main s"
    and "fire t s = Some s'"
  shows "inv_log s'"
proof (cases t)
  case Main
  with assms(6) have "main_step s = Some s'" by simp
  then show ?thesis using assms(1)
    by (cases rule: main_step_cases)
       (simp_all add: inv_log_def admissions_def rejections_def releases_def)
next
  case TA
  with assms(6) have "ta_step s = Some s'" by simp
  then show ?thesis
  proof (cases rule: ta_step_cases)
    case wake
    then show ?thesis using assms(1)
      by (simp add: inv_log_def admissions_def rejections_def releases_def)
  next
    case lock
    then show ?thesis using assms(1)
      by (simp add: inv_log_def admissions_def rejections_def releases_def)
  next
    case leave
    then show ?thesis using assms(1)
      by (simp add: inv_log_def admissions_def rejections_def releases_def)
  next
    case serve
    then show ?thesis using assms(1)
      by (simp add: inv_log_def admissions_def rejections_def releases_def count_if_snoc)
  next
    case spurious
    with no_spurious_wake [OF assms(4,3,5)] show ?thesis by simp
  qed
next
  case (Student k)
  with assms(6) have st: "student_step k s = Some s'" by simp
  from st have len: "k < length (student_at s)" by (cases rule: student_step_cases)
  with assms(2) have ok: "cycle_ok (student_at s ! k)"
    by (simp add: inv_cycles_def list_all_nth)
  from st show ?thesis
  proof (cases rule: student_step_cases)
    case (lock i)
    then show ?thesis
      using assms(1) sum_map_update [of k "student_at s" attempts_done "S_Locked i"]
      by (simp add: inv_log_def admissions_def rejections_def releases_def)
  next
    case (lock_fin i)
    with ok have "i = HELP_REQUESTS_PER_STUDENT" by simp
    with lock_fin show ?thesis
      using assms(1) sum_map_update [of k "student_at s" attempts_done S_FinLocked]
      by (simp add: inv_log_def admissions_def rejections_def releases_def)
  next
    case (admit i)
    then show ?thesis
      using assms(1,3) sum_map_update [of k "student_at s" attempts_done "S_Post i"]
      by (simp add: inv_log_def admissions_def rejections_def releases_def count_if_snoc
            inv_room_def)
  next
    case (reject i)
    then show ?thesis
      using assms(1) sum_map_update [of k "student_at s" attempts_done "S_Loop (Suc i)"]
      by (simp add: inv_log_def admissions_def rejections_def releases_def count_if_snoc)
  next
    case (post i)
    then show ?thesis
      using assms(1) sum_map_update [of k "student_at s" attempts_done "S_Loop (Suc i)"]
      by (simp add: inv_log_def admissions_def rejections_def releases_def)
  next
    case finish
    then show ?thesis
      using assms(1) sum_map_update [of k "student_at s" attempts_done S_Exited]
      by (simp add: inv_log_def admissions_def rejections_def releases_def count_if_snoc)
  qed
next
  case MainCreateFails
  with assms(6) have "main_create_fails s = Some s'" by simp
  then show ?thesis using assms(1)
    by (cases rule: main_create_fails_cases) (simp_all add: inv_log_def admissions_def rejections_def releases_def)
qed

lemma invariant_fire:
  assumes "invariant s" and "fire t s = Some s'"
  shows "invariant s'"
  unfolding invariant_def
proof (intro conjI)
  show "inv_room s'" using assms by (auto simp: invariant_def intro: inv_room_fire)
  show "inv_mutex s'" using assms by (auto simp: invariant_def intro: inv_mutex_fire)
  show "inv_main s'" using assms by (auto simp: invariant_def intro: inv_main_fire)
  show "inv_finished s'" using assms by (auto simp: invariant_def intro: inv_finished_fire)
  show "inv_tokens s'" using assms by (auto simp: invariant_def intro: inv_tokens_fire)
  show "inv_cycles s'" using assms by (auto simp: invariant_def intro: inv_cycles_fire)
  show "inv_log s'" using assms by (auto simp: invariant_def intro: inv_log_fire)
qed

lemma invariant_init: "0 < n \<Longrightarrow> 0 \<le> c \<Longrightarrow> invariant (init_state n c)"
  by (simp add: invariant_def init_state_def inv_room_def inv_mutex_def lock_holders_def
        inv_main_def inv_finished_def inv_tokens_def pending_wakes_def inv_cycles_def
        inv_log_def admissions_def rejections_def releases_def count_if_def)

lemma invariant_exec: "invariant s \<Longrightarrow> invariant (exec sched s)"
proof (induction sched arbitrary: s)
  case Nil
  then show ?case by simp
next
  case (Cons t ts)
  show ?case
  proof (cases "fire t s")
    case None
    with Cons show ?thesis by simp
  next
    case (Some s')
    with Cons.prems have "invariant s'" by (rule invariant_fire)
    with Cons.IH Some show ?thesis by simp
  qed
qed

lemma invariant_run:
  assumes "main_startup n c alloc_ok ta_created = Inr s0"
  shows "invariant (exec sched s0)"
proof -
  from assms have "0 < n" "0 \<le> c" "s0 = init_state n c"
    by (auto simp: main_startup_def split: if_splits)
  then show ?thesis by (simp add: invariant_init invariant_exec)
qed

section \<open>Consequences of the invariants\<close>

lemma fire_consts:
  assumes "fire t s = Some s'"
  shows "num_students s' = num_students s \<and> num_chairs s' = num_chairs s"
proof (cases t)
  case Main
  with assms have "main_step s = Some s'" by simp
  then show ?thesis by (cases rule: main_step_cases) simp_all
next
  case TA
  with assms have "ta_step s = Some s'" by simp
  then show ?thesis by (cases rule: ta_step_cases) simp_all
next
  case (Student k)
  with assms have "student_step k s = Some s'" by simp
  then show ?thesis by (cases rule: student_step_cases) simp_all
next
  case MainCreateFails
  with assms have "main_create_fails s = Some s'" by simp
  then show ?thesis by (cases rule: main_create_fails_cases) simp_all
qed

lemma exec_consts:
  "num_students (exec sched s) = num_students s \<and> num_chairs (exec sched s) = num_chairs s"
proof (induction sched arbitrary: s)
  case Nil
  then show ?case by simp
next
  case (Cons t ts)
  show ?case
  proof (cases "fire t s")
    case None
    with Cons show ?thesis by simp
  next
    case (Some s')
    with Cons [of s'] fire_consts [OF Some] show ?thesis by simp
  qed
qed

lemma ta_exit_step:
  assumes "fire t s = Some s'" and "ta_at s \<noteq> TA_Exited"
  shows "(ta_at s' = TA_Exited) =
           (t = TA \<and> ta_at s = TA_Locked \<and> all_done s \<noteq> 0 \<and> waiting_students s = 0)"
proof (cases t)
  case Main
  with assms have "main_step s = Some s'" by simp
  then show ?thesis using assms(2) Main by (cases rule: main_step_cases) simp_all
next
  case TA
  with assms have "ta_step s = Some s'" by simp
  then show ?thesis using TA by (cases rule: ta_step_cases) auto
next
  case (Student k)
  with assms have "student_step k s = Some s'" by simp
  then show ?thesis using assms(2) Student by (cases rule: student_step_cases) simp_all
next
  case MainCreateFails
  with assms have "main_create_fails s = Some s'" by simp
  then show ?thesis using assms(2) MainCreateFails
    by (cases rule: main_create_fails_cases) simp_all
qed

lemma holder_locked:
  assumes "inv_mutex s" and "0 < lock_holders s"
  shows "mutex_locked s"
  using assms by (simp add: inv_mutex_def split: if_splits)

lemma count_if_witness: "0 < count_if P xs \<Longrightarrow> \<exists>k<length xs. P (xs ! k)"
  unfolding count_if_def
  by (metis filter_False in_set_conv_nth length_greater_0_conv list.size(3) less_numeral_extra(3))

lemma joinable_iff: "joinable p = (p = S_Exited \<or> p = S_NotCreated)"
  by (cases p) simp_all

lemma student_enabled:
  assumes "k < length (student_at s)" and "student_step k s = None"
  shows "joinable (student_at s ! k) \<or> (mutex_locked s \<and> \<not> holds_lock (student_at s ! k))"
  using assms
  by (cases "student_at s ! k") (simp_all add: student_step_def split: if_splits)

lemma stuck_unfold:
  "stuck s = (main_step s = None \<and> ta_step s = None
              \<and> (\<forall>k<length (student_at s). student_step k s = None))"
  by (auto simp: stuck_def threads_def list_all_iff)

lemma stuck_mutex_free:
  assumes "inv_mutex s" and "stuck s"
  shows "\<not> mutex_locked s"
proof
  assume locked: "mutex_locked s"
  from assms(2) have m: "main_step s = None" and t: "ta_step s = None"
    and st: "\<forall>k<length (student_at s). student_step k s = None"
    by (simp_all add: stuck_unfold)
  from m have "main_at s \<noteq> M_Locked" by (auto simp: main_step_def)
  moreover from t have "ta_at s \<noteq> TA_Locked" by (auto simp: ta_step_def)
  ultimately have "0 < count_if holds_lock (student_at s)"
    using assms(1) locked by (simp add: inv_mutex_def lock_holders_def)
  then obtain k where k: "k < length (student_at s)" "holds_lock (student_at s ! k)"
    using count_if_witness by blast
  with st student_enabled [of k s] show False by (cases "student_at s ! k") auto
qed

lemma stuck_done:
  assumes "invariant s" and "stuck s"
  shows "ta_at s = TA_Exited \<and> main_at s = M_Exit \<and> all_joinable s"
proof -
  from assms(1) have im: "inv_main s" and it: "inv_tokens s" and ir: "inv_room s"
    and ix: "inv_mutex s" by (simp_all add: invariant_def)
  from assms(2) have m: "main_step s = None" and t: "ta_step s = None"
    and st: "\<forall>k<length (student_at s). student_step k s = None"
    by (simp_all add: stuck_unfold)
  have free: "\<not> mutex_locked s" using ix assms(2) by (rule stuck_mutex_free)
  have ret: "\<forall>k<length (student_at s). joinable (student_at s ! k)"
    using st student_enabled free by blast
  have no_post: "count_if at_post (student_at s) = 0"
  proof (rule ccontr)
    assume "count_if at_post (student_at s) \<noteq> 0"
    then obtain k where "k < length (student_at s)" "at_post (student_at s ! k)"
      using count_if_witness [of at_post "student_at s"] by auto
    with ret show False by (cases "student_at s ! k") auto
  qed
  have main_cases: "main_at s = M_JoinTA \<and> ta_at s \<noteq> TA_Exited \<or> main_at s = M_Exit"
  proof (cases "main_at s")
    case (M_Create i)
    with m show ?thesis by (simp add: main_step_def)
  next
    case (M_Join i)
    show ?thesis
    proof (cases "int i < num_students s")
      case True
      with M_Join im have "i < length (student_at s)" by (simp add: inv_main_def)
      with ret M_Join True m show ?thesis by (auto simp: main_step_def joinable_iff)
    next
      case False
      with M_Join m free show ?thesis by (simp add: main_step_def)
    qed
  next
    case M_Locked
    with m show ?thesis by (simp add: main_step_def)
  next
    case M_Post
    with m show ?thesis by (simp add: main_step_def)
  next
    case M_JoinTA
    with m show ?thesis by (simp add: main_step_def split: if_splits)
  next
    case M_Exit
    then show ?thesis by simp
  qed
  have exited: "ta_at s = TA_Exited"
  proof (rule ccontr)
    assume live: "ta_at s \<noteq> TA_Exited"
    with main_cases im have mj: "main_at s = M_JoinTA" by (auto simp: inv_main_def)
    from t live free have "ta_at s = TA_Sleeping \<and> students_sem s = 0"
      by (cases "ta_at s") (simp_all add: ta_step_def split: if_splits)
    with it live mj no_post ir show False
      by (simp add: inv_tokens_def pending_wakes_def inv_room_def)
  qed
  with main_cases have "main_at s = M_Exit" by simp
  moreover from this im have "all_joinable s" by (simp add: inv_main_def)
  ultimately show ?thesis using exited by simp
qed

lemma progress_init: "progress (init_state n c) = 28 * nat n + 8"
  by (simp add: progress_def init_state_def)

lemma ta_locked_holds:
  assumes "inv_mutex s" and "ta_at s = TA_Locked"
  shows "mutex_locked s"
  using assms by (intro holder_locked) (simp_all add: lock_holders_def)

lemma student_locked_holds:
  assumes "inv_mutex s" and "k < length (student_at s)" and "holds_lock (student_at s ! k)"
  shows "mutex_locked s"
  using assms count_if_pos [of k "student_at s" holds_lock]
  by (intro holder_locked) (simp_all add: lock_holders_def)

lemma ta_exited_facts:
  assumes "invariant s" and "ta_at s = TA_Exited"
  shows "all_joinable s \<and> waiting_students s = 0 \<and> all_done s = 1"
proof -
  from assms have p: "final_wake_posted (main_at s)" and w: "waiting_students s = 0"
    by (simp_all add: invariant_def inv_tokens_def)
  from assms(1) have im: "inv_main s" by (simp add: invariant_def)
  from p im have "all_joinable s" by (intro inv_main_posted) (simp_all add: posted_joined)
  moreover from p im have "all_done s = 1"
    by (cases "main_at s") (simp_all add: inv_main_def)
  ultimately show ?thesis using w by simp
qed

lemma all_created_retired:
  assumes "all_joinable s" and "all_created s"
  shows "all_retired s"
proof -
  have "retired p" if "p \<in> set (student_at s)" for p
  proof -
    from that assms(1) have "joinable p" by (simp add: all_joinable_def list_all_iff)
    moreover from that assms(2) have "p \<noteq> S_NotCreated" by (auto simp: all_created_def)
    ultimately show ?thesis by (cases p) simp_all
  qed
  with assms(1) show ?thesis by (simp add: all_joinable_def all_retired_def list_all_iff)
qed

lemma all_joinable_no_post:
  assumes "all_joinable s"
  shows "count_if at_post (student_at s) = 0"
proof (rule ccontr)
  assume "count_if at_post (student_at s) \<noteq> 0"
  then obtain k where "k < length (student_at s)" "at_post (student_at s ! k)"
    using count_if_witness [of at_post "student_at s"] by auto
  with all_joinable_nth [OF assms, of k] show False
    by (cases "student_at s ! k") simp_all
qed

lemma before_final_wake:
  assumes "invariant s" and "\<not> final_wake_posted (main_at s)"
  shows "ta_at s \<noteq> TA_Exited
         \<and> int (pending_wakes s) + int (count_if at_post (student_at s)) = waiting_students s"
  using assms by (auto simp: invariant_def inv_tokens_def split: if_splits)

lemma after_final_wake:
  assumes "invariant s" and "final_wake_posted (main_at s)" and "ta_at s \<noteq> TA_Exited"
  shows "int (pending_wakes s) = waiting_students s + 1 \<and> all_done s = 1"
proof -
  from assms(1) have im: "inv_main s" and it: "inv_tokens s" by (simp_all add: invariant_def)
  from im assms(2) have "all_joinable s"
    by (intro inv_main_posted) (simp_all add: posted_joined)
  then have "count_if at_post (student_at s) = 0" by (rule all_joinable_no_post)
  with it assms(2,3) have "int (pending_wakes s) = waiting_students s + 1"
    by (simp add: inv_tokens_def)
  moreover from im assms(2) have "all_done s = 1"
    by (cases "main_at s") (simp_all add: inv_main_def)
  ultimately show ?thesis by simp
qed

lemma pending_zero:
  assumes "pending_wakes s = 0" and "ta_at s \<noteq> TA_Exited"
  shows "ta_at s = TA_Sleeping \<and> students_sem s = 0"
  using assms by (cases "ta_at s") (simp_all add: pending_wakes_def)



section \<open>Evaluating the sample schedules\<close>

lemmas step_simps = main_startup_def init_state_def main_step_def main_create_fails_def ta_step_def
  student_step_def shutdown_force_def HELP_REQUESTS_PER_STUDENT_def



lemma served_run_end:
  "exec (served_run @ [TA, Main]) (init_state 1 1) =
     \<lparr>num_students = 1, num_chairs = 1, waiting_students = 0, students_finished = 1,
      all_done = 1, mutex_locked = False, students_sem = 0, main_at = M_Exit,
      ta_at = TA_Exited, student_at = [S_Exited],
      stdout_log = [Sitting 1 1, Helping 0, Sitting 1 1, Helping 0, Sitting 1 1, Helping 0,
                    DoneForDay 1 1]\<rparr>"
  by (simp add: served_run_def step_simps)

lemma start_1_1: "main_startup 1 1 True True = Inr (init_state 1 1)"
  by (simp add: main_startup_def)

lemma start_1_0: "main_startup 1 0 True True = Inr (init_state 1 0)"
  by (simp add: main_startup_def)

lemma first_test_state:
  "exec [Main, Student 0] (init_state 1 1) =
     \<lparr>num_students = 1, num_chairs = 1, waiting_students = 0, students_finished = 0,
      all_done = 0, mutex_locked = True, students_sem = 0, main_at = M_Create 1,
      ta_at = TA_Sleeping, student_at = [S_Locked 0], stdout_log = []\<rparr>"
  by (simp add: step_simps)

lemma second_test_state:
  "exec [Main, Student 0, Student 0, Student 0, Student 0] (init_state 1 1) =
     \<lparr>num_students = 1, num_chairs = 1, waiting_students = 1, students_finished = 0,
      all_done = 0, mutex_locked = True, students_sem = 1, main_at = M_Create 1,
      ta_at = TA_Sleeping, student_at = [S_Locked 1], stdout_log = [Sitting 1 1]\<rparr>"
  by (simp add: step_simps)

lemma serving_state:
  "exec [Main, Student 0, Student 0, Student 0, TA, TA] (init_state 1 1) =
     \<lparr>num_students = 1, num_chairs = 1, waiting_students = 1, students_finished = 0,
      all_done = 0, mutex_locked = True, students_sem = 0, main_at = M_Create 1,
      ta_at = TA_Locked, student_at = [S_Loop 1], stdout_log = [Sitting 1 1]\<rparr>"
  by (simp add: step_simps)



lemma empty_room_run_state:
  "exec empty_room_run (init_state 1 0) =
     \<lparr>num_students = 1, num_chairs = 0, waiting_students = 0, students_finished = 1,
      all_done = 1, mutex_locked = True, students_sem = 0, main_at = M_JoinTA,
      ta_at = TA_Locked, student_at = [S_Exited],
      stdout_log = [HallwayFull 1, HallwayFull 1, HallwayFull 1, DoneForDay 1 1]\<rparr>"
  by (simp add: empty_room_run_def step_simps)

lemma empty_room_end:
  "exec (empty_room_run @ [TA, Main]) (init_state 1 0) =
     \<lparr>num_students = 1, num_chairs = 0, waiting_students = 0, students_finished = 1,
      all_done = 1, mutex_locked = False, students_sem = 0, main_at = M_Exit,
      ta_at = TA_Exited, student_at = [S_Exited],
      stdout_log = [HallwayFull 1, HallwayFull 1, HallwayFull 1, DoneForDay 1 1]\<rparr>"
  by (simp add: empty_room_run_def step_simps)

lemma first_test_zero_chairs:
  "exec [Main, Student 0] (init_state 1 0) =
     \<lparr>num_students = 1, num_chairs = 0, waiting_students = 0, students_finished = 0,
      all_done = 0, mutex_locked = True, students_sem = 0, main_at = M_Create 1,
      ta_at = TA_Sleeping, student_at = [S_Locked 0], stdout_log = []\<rparr>"
  by (simp add: step_simps)

lemma start_2_1: "main_startup 2 1 True True = Inr (init_state 2 1)"
  by (simp add: main_startup_def)

lemma failed_create_run_state:
  "exec failed_create_run (init_state 2 1) =
     \<lparr>num_students = 2, num_chairs = 1, waiting_students = 0, students_finished = 1,
      all_done = 1, mutex_locked = False, students_sem = 0, main_at = M_Exit,
      ta_at = TA_Exited, student_at = [S_Exited, S_NotCreated],
      stdout_log = [Sitting 1 1, Helping 0, Sitting 1 1, Helping 0, Sitting 1 1, Helping 0,
                    DoneForDay 1 1]\<rparr>"
  by (simp add: failed_create_run_def step_simps)

lemma failed_create_locked_state:
  "exec (take 26 failed_create_run) (init_state 2 1) =
     \<lparr>num_students = 2, num_chairs = 1, waiting_students = 0, students_finished = 1,
      all_done = 0, mutex_locked = True, students_sem = 0, main_at = M_Locked,
      ta_at = TA_Sleeping, student_at = [S_Exited, S_NotCreated],
      stdout_log = [Sitting 1 1, Helping 0, Sitting 1 1, Helping 0, Sitting 1 1, Helping 0,
                    DoneForDay 1 1]\<rparr>"
  by (simp add: failed_create_run_def step_simps)

lemma failed_create_forced_state:
  "exec (take 27 failed_create_run) (init_state 2 1) =
     \<lparr>num_students = 2, num_chairs = 1, waiting_students = 0, students_finished = 1,
      all_done = 1, mutex_locked = False, students_sem = 0, main_at = M_Post,
      ta_at = TA_Sleeping, student_at = [S_Exited, S_NotCreated],
      stdout_log = [Sitting 1 1, Helping 0, Sitting 1 1, Helping 0, Sitting 1 1, Helping 0,
                    DoneForDay 1 1]\<rparr>"
  by (simp add: failed_create_run_def step_simps)

lemma waiting_step:
  assumes "fire t s = Some s'"
  shows "(waiting_students s' = waiting_students s + 1 \<and> waiting_students s < num_chairs s
            \<and> (\<exists>k. t = Student k \<and> k < length (student_at s) \<and> holds_lock (student_at s ! k)))
         \<or> (waiting_students s' = waiting_students s - 1 \<and> 0 < waiting_students s
            \<and> t = TA \<and> ta_at s = TA_Locked)
         \<or> waiting_students s' = waiting_students s"
proof (cases t)
  case Main
  with assms have "main_step s = Some s'" by simp
  then show ?thesis by (cases rule: main_step_cases) simp_all
next
  case TA
  with assms have "ta_step s = Some s'" by simp
  then show ?thesis using TA by (cases rule: ta_step_cases) simp_all
next
  case (Student k)
  with assms have "student_step k s = Some s'" by simp
  then show ?thesis using Student by (cases rule: student_step_cases) simp_all
next
  case MainCreateFails
  with assms have "main_create_fails s = Some s'" by simp
  then show ?thesis by (cases rule: main_create_fails_cases) simp_all
qed

lemma log_step:
  assumes "fire t s = Some s'"
  shows "admissions s' = admissions s + (if waiting_students s < waiting_students s' then 1 else 0)
         \<and> releases s' = releases s + (if waiting_students s' < waiting_students s then 1 else 0)"
proof (cases t)
  case Main
  with assms have "main_step s = Some s'" by simp
  then show ?thesis
    by (cases rule: main_step_cases) (simp_all add: admissions_def releases_def)
next
  case TA
  with assms have "ta_step s = Some s'" by simp
  then show ?thesis
    by (cases rule: ta_step_cases) (simp_all add: admissions_def releases_def count_if_snoc)
next
  case (Student k)
  with assms have "student_step k s = Some s'" by simp
  then show ?thesis
    by (cases rule: student_step_cases)
       (simp_all add: admissions_def releases_def count_if_snoc)
next
  case MainCreateFails
  with assms have "main_create_fails s = Some s'" by simp
  then show ?thesis
    by (cases rule: main_create_fails_cases) (simp_all add: admissions_def releases_def)
qed





lemma finished_facts:
  assumes "invariant s"
  shows "students_finished s \<le> num_students s
         \<and> (main_at s = M_Locked \<longrightarrow> all_joinable s)
         \<and> (all_created s \<longrightarrow>
               (all_done s \<noteq> 0 \<longrightarrow> students_finished s = num_students s)
               \<and> (main_at s = M_Locked \<longrightarrow> all_retired s \<and> all_done s = 1))"
proof -
  from assms have f: "inv_finished s" and m: "inv_main s" by (simp_all add: invariant_def)
  have "int (count_if retired (student_at s)) \<le> int (length (student_at s))"
    by (simp add: count_if_def)
  with inv_main_length [OF m] f have le: "students_finished s \<le> num_students s"
    by (simp add: inv_finished_def)
  have lk: "main_at s = M_Locked \<longrightarrow> all_joinable s"
    using m by (auto simp: inv_main_def)
  have full: "students_finished s = num_students s"
    if "all_created s" "joined_all (main_at s)"
  proof -
    from inv_main_posted [OF m that(2)] that(1) have "all_retired s"
      by (intro all_created_retired)
    then have "int (count_if retired (student_at s)) = num_students s"
      by (simp add: all_retired_def count_if_all)
    with f show ?thesis by (simp add: inv_finished_def)
  qed
  have eq: "students_finished s = num_students s" if "all_created s" "all_done s \<noteq> 0"
  proof -
    from f that(2) have "students_finished s = num_students s
        \<or> main_at s \<in> {M_Post, M_JoinTA, M_Exit}"
      by (auto simp: inv_finished_def)
    with full [OF that(1)] show ?thesis by auto
  qed
  have locked: "all_retired s \<and> all_done s = 1" if "all_created s" "main_at s = M_Locked"
  proof -
    from that(2) have j: "joined_all (main_at s)" by simp
    from inv_main_posted [OF m j] that(1) have "all_retired s" by (intro all_created_retired)
    with full [OF that(1) j] f show ?thesis by (simp add: inv_finished_def)
  qed
  from le lk eq locked show ?thesis by blast
qed

lemma startup_init:
  assumes "main_startup n c alloc_ok ta_created = Inr s0"
  shows "s0 = init_state n c \<and> 0 < n \<and> 0 \<le> c"
  using assms by (auto simp: main_startup_def split: if_splits)

lemma run_consts:
  assumes "main_startup n c alloc_ok ta_created = Inr s0"
  shows "num_students (exec sched s0) = n \<and> num_chairs (exec sched s0) = c"
  using startup_init [OF assms] exec_consts [of sched s0] by (simp add: init_state_def)

section \<open>Termination of the TA thread\<close>

text \<open>
  What holds in every run, failed creations included: a step makes the TA thread end exactly
  when it is the TA's own step at its exit test with \<open>all_done\<close> nonzero and
  \<open>waiting_students = 0\<close>, and the TA holds the mutex at that test; once the TA has ended,
  every slot is filled, no student thread is running and nobody is seated; the only state in
  which no thread can step is one where the TA has ended, and no schedule makes the program
  take more than \<open>28 * num_students + 8\<close> steps, so every run reaches that state. When every
  student was created, the TA ends only after all \<open>num_students\<close> students have retired.
\<close>

lemma ta_exit_in_every_run:
  assumes "main_startup n c alloc_ok ta_created = Inr s0"
  shows "(\<forall>t s'. fire t (exec sched s0) = Some s' \<and> ta_at (exec sched s0) \<noteq> TA_Exited \<longrightarrow>
            (ta_at s' = TA_Exited) =
              (t = TA \<and> ta_at (exec sched s0) = TA_Locked \<and> all_done (exec sched s0) \<noteq> 0
               \<and> waiting_students (exec sched s0) = 0))
         \<and> (ta_at (exec sched s0) = TA_Locked \<longrightarrow> mutex_locked (exec sched s0))
         \<and> (ta_at (exec sched s0) = TA_Exited \<longrightarrow>
              all_joinable (exec sched s0) \<and> waiting_students (exec sched s0) = 0
              \<and> (all_created (exec sched s0) \<longrightarrow> all_retired (exec sched s0)))
         \<and> (stuck (exec sched s0) \<longrightarrow>
              ta_at (exec sched s0) = TA_Exited \<and> all_joinable (exec sched s0))
         \<and> steps_taken sched s0 \<le> 28 * nat n + 8"
proof -
  have inv: "invariant (exec sched s0)" using assms by (rule invariant_run)
  from assms have s0: "s0 = init_state n c" by (simp add: main_startup_def split: if_splits)
  have "steps_taken sched s0 \<le> 28 * nat n + 8"
    using steps_taken_bound [of sched s0] by (simp add: s0 progress_init)
  moreover have "ta_at (exec sched s0) = TA_Locked \<longrightarrow> mutex_locked (exec sched s0)"
    using inv ta_locked_holds by (simp add: invariant_def)
  ultimately show ?thesis
    using ta_exit_step ta_exited_facts [OF inv] stuck_done [OF inv] all_created_retired
    by blast
qed

text \<open>
  C1 says that the TA thread ends only if every one of the \<open>num_students\<close> students has
  retired. The code breaks this when a student thread cannot be created. With two students
  and one chair, under \<open>failed_create_run\<close> the \<open>pthread_create\<close> of the second student
  fails; \<open>main\<close> goes on, gets past the join of the handle that was never set, forces
  \<open>all_done = 1\<close> and posts; the TA finds \<open>all_done\<close> set and nobody waiting and ends,
  although only one of the two students has ever run and \<open>students_finished\<close> is 1.
\<close>

theorem ta_exits_with_student_missing:
  "main_startup 2 1 True True = Inr (init_state 2 1)
   \<and> ta_at (exec failed_create_run (init_state 2 1)) = TA_Exited
   \<and> student_at (exec failed_create_run (init_state 2 1)) = [S_Exited, S_NotCreated]
   \<and> students_finished (exec failed_create_run (init_state 2 1)) = 1
   \<and> num_students (exec failed_create_run (init_state 2 1)) = 2
   \<and> \<not> all_retired (exec failed_create_run (init_state 2 1))"
  unfolding failed_create_run_state by (simp add: start_2_1 all_retired_def)

section \<open>Occupancy of the hallway\<close>

text \<open>
  C2. In every state reached after a successful start-up, \<open>waiting_students\<close> is at
  least 0 and at most \<open>num_chairs\<close>, which is still the number read at start-up; and
  every step from such a state either adds one to \<open>waiting_students\<close>, and then it was
  below \<open>num_chairs\<close> and the mutex was held, or takes one away, and then it was positive
  and the mutex was held, or leaves it unchanged.
\<close>

theorem occupancy_within_capacity:
  fixes sched :: "tid list"
  assumes "main_startup n c alloc_ok ta_created = Inr s0"
  defines "s \<equiv> exec sched s0"
  shows "0 \<le> waiting_students s \<and> waiting_students s \<le> num_chairs s \<and> num_chairs s = c
         \<and> (\<forall>t s'. fire t s = Some s' \<longrightarrow>
               (waiting_students s' = waiting_students s + 1
                  \<and> waiting_students s < num_chairs s \<and> mutex_locked s)
               \<or> (waiting_students s' = waiting_students s - 1
                  \<and> 0 < waiting_students s \<and> mutex_locked s)
               \<or> waiting_students s' = waiting_students s)"
proof -
  have inv: "invariant s" unfolding s_def using assms(1) by (rule invariant_run)
  then have room: "inv_room s" and mx: "inv_mutex s" by (simp_all add: invariant_def)
  have c: "num_chairs s = c" unfolding s_def using run_consts [OF assms(1)] by simp
  have "(waiting_students s' = waiting_students s + 1
            \<and> waiting_students s < num_chairs s \<and> mutex_locked s)
         \<or> (waiting_students s' = waiting_students s - 1
            \<and> 0 < waiting_students s \<and> mutex_locked s)
         \<or> waiting_students s' = waiting_students s"
    if "fire t s = Some s'" for t s'
    using waiting_step [OF that] student_locked_holds [OF mx] ta_locked_holds [OF mx]
    by blast
  with room c show ?thesis by (simp add: inv_room_def)
qed

theorem occupancy_within_capacity_witness:
  "main_startup 1 1 True True = Inr (init_state 1 1)
   \<and> waiting_students (exec [Main, Student 0] (init_state 1 1)) = 0
   \<and> num_chairs (exec [Main, Student 0] (init_state 1 1)) = 1
   \<and> (\<exists>s'. fire (Student 0) (exec [Main, Student 0] (init_state 1 1)) = Some s'
          \<and> waiting_students s' = 1)
   \<and> mutex_locked (exec [Main, Student 0] (init_state 1 1))
   \<and> (\<exists>s'. fire TA (exec [Main, Student 0, Student 0, Student 0, TA, TA] (init_state 1 1))
              = Some s' \<and> waiting_students s' = 0)
   \<and> mutex_locked (exec [Main, Student 0, Student 0, Student 0, TA, TA] (init_state 1 1))"
proof -
  note a = occupancy_within_capacity [OF start_1_1, where sched = "[Main, Student 0]"]
  note b = occupancy_within_capacity
    [OF start_1_1, where sched = "[Main, Student 0, Student 0, Student 0, TA, TA]"]
  have up: "\<exists>s'. fire (Student 0) (exec [Main, Student 0] (init_state 1 1)) = Some s'
          \<and> waiting_students s' = 1"
    unfolding first_test_state by (simp add: student_step_def)
  have down: "\<exists>s'. fire TA (exec [Main, Student 0, Student 0, Student 0, TA, TA]
      (init_state 1 1)) = Some s' \<and> waiting_students s' = 0"
    unfolding serving_state by (simp add: ta_step_def)
  from a have c: "num_chairs (exec [Main, Student 0] (init_state 1 1)) = 1" by simp
  from a up have la: "mutex_locked (exec [Main, Student 0] (init_state 1 1))"
    unfolding first_test_state by (auto)
  from b down
  have lb: "mutex_locked (exec [Main, Student 0, Student 0, Student 0, TA, TA] (init_state 1 1))"
    unfolding serving_state by (auto)
  show ?thesis using start_1_1 up down c la lb unfolding first_test_state by (simp)
qed

section \<open>The admission attempt of a student\<close>

text \<open>
  C3. In every reachable state and for every existing student thread: at the head of a
  help cycle the student's step is the lock acquisition, which is blocked exactly while the
  mutex is held and otherwise takes the mutex and changes no counter; at the chair test the
  student holds the mutex and its step is always enabled, releases the mutex, and either
  adds one to \<open>waiting_students\<close> and moves on to the \<open>sem_post\<close> (admitted, printed as
  sitting) when \<open>waiting_students < num_chairs\<close>, or leaves \<open>waiting_students\<close> unchanged
  and moves to the next cycle (rejected, printed as hallway full) otherwise; the
  \<open>sem_post\<close> that follows an admission is always enabled.
\<close>

theorem try_occupy_seat:
  fixes sched :: "tid list"
  assumes "main_startup n c alloc_ok ta_created = Inr s0"
  defines "s \<equiv> exec sched s0"
  assumes "k < length (student_at s)"
  shows "(\<forall>i. student_at s ! k = S_Loop i \<and> i < HELP_REQUESTS_PER_STUDENT \<longrightarrow>
            (if mutex_locked s then fire (Student k) s = None
             else \<exists>s'. fire (Student k) s = Some s' \<and> mutex_locked s'
                    \<and> student_at s' ! k = S_Locked i
                    \<and> waiting_students s' = waiting_students s))
         \<and> (\<forall>i. student_at s ! k = S_Locked i \<longrightarrow>
              mutex_locked s
              \<and> (\<exists>s'. fire (Student k) s = Some s' \<and> \<not> mutex_locked s'
                   \<and> (if waiting_students s < num_chairs s
                       then waiting_students s' = waiting_students s + 1
                            \<and> student_at s' ! k = S_Post i
                            \<and> admissions s' = Suc (admissions s)
                            \<and> rejections s' = rejections s
                       else waiting_students s' = waiting_students s
                            \<and> student_at s' ! k = S_Loop (Suc i)
                            \<and> admissions s' = admissions s
                            \<and> rejections s' = Suc (rejections s))))
         \<and> (\<forall>i. student_at s ! k = S_Post i \<longrightarrow>
              (\<exists>s'. fire (Student k) s = Some s' \<and> students_sem s' = Suc (students_sem s)
                   \<and> student_at s' ! k = S_Loop (Suc i)))"
proof -
  have inv: "invariant s" unfolding s_def using assms(1) by (rule invariant_run)
  then have mx: "inv_mutex s" by (simp add: invariant_def)
  have a: "\<forall>i. student_at s ! k = S_Loop i \<and> i < HELP_REQUESTS_PER_STUDENT \<longrightarrow>
            (if mutex_locked s then fire (Student k) s = None
             else \<exists>s'. fire (Student k) s = Some s' \<and> mutex_locked s'
                    \<and> student_at s' ! k = S_Locked i
                    \<and> waiting_students s' = waiting_students s)"
    using assms(3) by (simp add: student_step_def)
  have b: "\<forall>i. student_at s ! k = S_Locked i \<longrightarrow>
              mutex_locked s
              \<and> (\<exists>s'. fire (Student k) s = Some s' \<and> \<not> mutex_locked s'
                   \<and> (if waiting_students s < num_chairs s
                       then waiting_students s' = waiting_students s + 1
                            \<and> student_at s' ! k = S_Post i
                            \<and> admissions s' = Suc (admissions s)
                            \<and> rejections s' = rejections s
                       else waiting_students s' = waiting_students s
                            \<and> student_at s' ! k = S_Loop (Suc i)
                            \<and> admissions s' = admissions s
                            \<and> rejections s' = Suc (rejections s)))"
    using assms(3) student_locked_holds [OF mx assms(3)]
    by (simp add: student_step_def admissions_def rejections_def count_if_snoc)
  have c: "\<forall>i. student_at s ! k = S_Post i \<longrightarrow>
              (\<exists>s'. fire (Student k) s = Some s' \<and> students_sem s' = Suc (students_sem s)
                   \<and> student_at s' ! k = S_Loop (Suc i))"
    using assms(3) by (simp add: student_step_def)
  from a b c show ?thesis by blast
qed

theorem try_occupy_seat_witness:
  "main_startup 1 1 True True = Inr (init_state 1 1)
   \<and> 0 < length (student_at (exec [Main, Student 0] (init_state 1 1)))
   \<and> student_at (exec [Main, Student 0] (init_state 1 1)) ! 0 = S_Locked 0
   \<and> mutex_locked (exec [Main, Student 0] (init_state 1 1))
   \<and> (\<exists>s'. fire (Student 0) (exec [Main, Student 0] (init_state 1 1)) = Some s'
          \<and> \<not> mutex_locked s' \<and> waiting_students s' = 1 \<and> student_at s' ! 0 = S_Post 0)
   \<and> student_at (exec [Main, Student 0, Student 0, Student 0, Student 0] (init_state 1 1)) ! 0
       = S_Locked 1
   \<and> (\<exists>s'. fire (Student 0)
              (exec [Main, Student 0, Student 0, Student 0, Student 0] (init_state 1 1)) = Some s'
          \<and> \<not> mutex_locked s' \<and> waiting_students s' = 1 \<and> student_at s' ! 0 = S_Loop 2)"
proof -
  have la: "0 < length (student_at (exec [Main, Student 0] (init_state 1 1)))"
    unfolding first_test_state by (simp)
  have lb: "0 < length (student_at
      (exec [Main, Student 0, Student 0, Student 0, Student 0] (init_state 1 1)))"
    unfolding second_test_state by (simp)
  note a = try_occupy_seat [OF start_1_1 la]
  note b = try_occupy_seat [OF start_1_1 lb]
  have pa: "student_at (exec [Main, Student 0] (init_state 1 1)) ! 0 = S_Locked 0"
    unfolding first_test_state by (simp)
  have pb: "student_at (exec [Main, Student 0, Student 0, Student 0, Student 0]
      (init_state 1 1)) ! 0 = S_Locked 1"
    unfolding second_test_state by (simp)
  from a pa have ra: "mutex_locked (exec [Main, Student 0] (init_state 1 1))
     \<and> (\<exists>s'. fire (Student 0) (exec [Main, Student 0] (init_state 1 1)) = Some s'
          \<and> \<not> mutex_locked s' \<and> waiting_students s' = 1 \<and> student_at s' ! 0 = S_Post 0)"
    unfolding first_test_state by (auto)
  from b pb have rb: "\<exists>s'. fire (Student 0)
              (exec [Main, Student 0, Student 0, Student 0, Student 0] (init_state 1 1)) = Some s'
          \<and> \<not> mutex_locked s' \<and> waiting_students s' = 1 \<and> student_at s' ! 0 = S_Loop 2"
    unfolding second_test_state by (auto)
  show ?thesis using start_1_1 la pa pb ra rb by simp
qed

section \<open>Conservation of seats\<close>

text \<open>
  C4. In every reachable state the number of admissions printed equals the number of
  releases printed by the TA plus \<open>waiting_students\<close>; a step prints an admission exactly
  when it increments \<open>waiting_students\<close> and a release exactly when it decrements it; and
  once the TA has ended, \<open>waiting_students\<close> is 0 and releases equal admissions.
\<close>

theorem seat_conservation:
  fixes sched :: "tid list"
  assumes "main_startup n c alloc_ok ta_created = Inr s0"
  defines "s \<equiv> exec sched s0"
  shows "int (admissions s) = int (releases s) + waiting_students s
         \<and> (\<forall>t s'. fire t s = Some s' \<longrightarrow>
               admissions s' =
                 admissions s + (if waiting_students s < waiting_students s' then 1 else 0)
               \<and> releases s' =
                 releases s + (if waiting_students s' < waiting_students s then 1 else 0))
         \<and> (ta_at s = TA_Exited \<longrightarrow>
               waiting_students s = 0 \<and> releases s = admissions s)"
proof -
  have inv: "invariant s" unfolding s_def using assms(1) by (rule invariant_run)
  then have lg: "int (admissions s) = int (releases s) + waiting_students s"
    by (simp add: invariant_def inv_log_def)
  moreover have "ta_at s = TA_Exited \<longrightarrow> waiting_students s = 0 \<and> releases s = admissions s"
    using ta_exited_facts [OF inv] lg by auto
  ultimately show ?thesis using log_step by blast
qed

theorem seat_conservation_witness:
  "main_startup 1 1 True True = Inr (init_state 1 1)
   \<and> ta_at (exec (served_run @ [TA, Main]) (init_state 1 1)) = TA_Exited
   \<and> admissions (exec (served_run @ [TA, Main]) (init_state 1 1)) = 3
   \<and> releases (exec (served_run @ [TA, Main]) (init_state 1 1)) = 3
   \<and> waiting_students (exec (served_run @ [TA, Main]) (init_state 1 1)) = 0
   \<and> (\<exists>s'. fire (Student 0) (exec [Main, Student 0] (init_state 1 1)) = Some s'
          \<and> admissions s' = Suc (admissions (exec [Main, Student 0] (init_state 1 1))))"
proof -
  note a = seat_conservation [OF start_1_1, where sched = "served_run @ [TA, Main]"]
  note b = seat_conservation [OF start_1_1, where sched = "[Main, Student 0]"]
  have e: "ta_at (exec (served_run @ [TA, Main]) (init_state 1 1)) = TA_Exited"
    unfolding served_run_end by simp
  have adm: "admissions (exec (served_run @ [TA, Main]) (init_state 1 1)) = 3"
    unfolding served_run_end by (simp add: admissions_def count_if_def)
  from a e adm have rel: "releases (exec (served_run @ [TA, Main]) (init_state 1 1)) = 3
     \<and> waiting_students (exec (served_run @ [TA, Main]) (init_state 1 1)) = 0"
    by simp
  have up: "\<exists>s'. fire (Student 0) (exec [Main, Student 0] (init_state 1 1)) = Some s'
      \<and> waiting_students (exec [Main, Student 0] (init_state 1 1)) < waiting_students s'"
    unfolding first_test_state by (simp add: student_step_def)
  then obtain s' where f: "fire (Student 0) (exec [Main, Student 0] (init_state 1 1)) = Some s'"
    and lt: "waiting_students (exec [Main, Student 0] (init_state 1 1)) < waiting_students s'"
    by blast
  from b f have "admissions s' = admissions (exec [Main, Student 0] (init_state 1 1))
      + (if waiting_students (exec [Main, Student 0] (init_state 1 1)) < waiting_students s'
         then 1 else 0)"
    by blast
  with lt have "admissions s' = Suc (admissions (exec [Main, Student 0] (init_state 1 1)))"
    by (simp del: exec.simps)
  with f have "\<exists>s'. fire (Student 0) (exec [Main, Student 0] (init_state 1 1)) = Some s'
          \<and> admissions s' = Suc (admissions (exec [Main, Student 0] (init_state 1 1)))"
    by blast
  with start_1_1 e adm rel show ?thesis by (simp del: exec.simps)
qed

section \<open>The flag all\_done\<close>



section \<open>The count of finished students\<close>

text \<open>
  What holds in every run, failed creations included: \<open>students_finished \<le> num_students\<close>;
  a student's step changes \<open>all_done\<close> only when it leaves the two equal; \<open>main\<close> holds the
  mutex for its forced assignment only when no student thread is running any more. When
  every student was created, \<open>all_done\<close> is nonzero only if
  \<open>students_finished = num_students\<close>, and \<open>main\<close> forces the flag only after all
  \<open>num_students\<close> students have retired.
\<close>

lemma finished_count_in_every_run:
  fixes sched :: "tid list"
  assumes "main_startup n c alloc_ok ta_created = Inr s0"
  defines "s \<equiv> exec sched s0"
  shows "students_finished s \<le> num_students s \<and> num_students s = n
         \<and> (\<forall>k s'. fire (Student k) s = Some s' \<and> all_done s' \<noteq> all_done s \<longrightarrow>
               students_finished s' = num_students s')
         \<and> (main_at s = M_Locked \<longrightarrow> all_joinable s)
         \<and> (all_created s \<longrightarrow>
               (all_done s \<noteq> 0 \<longrightarrow> students_finished s = num_students s)
               \<and> (main_at s = M_Locked \<longrightarrow> all_retired s))"
proof -
  have inv: "invariant s" unfolding s_def using assms(1) by (rule invariant_run)
  have n: "num_students s = n" unfolding s_def using run_consts [OF assms(1)] by simp
  have "students_finished s' = num_students s'"
    if "fire (Student k) s = Some s'" "all_done s' \<noteq> all_done s" for k s'
  proof -
    from that(1) have "student_step k s = Some s'" by simp
    then show ?thesis using that(2)
      by (cases rule: student_step_cases) (simp_all split: if_splits)
  qed
  with finished_facts [OF inv] n show ?thesis by blast
qed

text \<open>
  C10 says that whenever \<open>all_done\<close> is set, \<open>students_finished\<close> equals \<open>num_students\<close>, and
  that \<open>main\<close> forces the flag only after every student has been joined. The code breaks
  this when a student thread cannot be created, against its own comment before the forced
  assignment (all students have finished their help cycles). With two students and one
  chair, under \<open>failed_create_run\<close>: after 26 steps \<open>main\<close> holds the mutex for the forced
  assignment with one student retired and the other never created; after 27 steps
  \<open>all_done\<close> is 1 while \<open>students_finished\<close> is 1 and \<open>num_students\<close> is 2, and it stays so
  to the end of the run.
\<close>

theorem all_done_forced_below_total:
  "main_startup 2 1 True True = Inr (init_state 2 1)
   \<and> main_at (exec (take 26 failed_create_run) (init_state 2 1)) = M_Locked
   \<and> all_done (exec (take 26 failed_create_run) (init_state 2 1)) = 0
   \<and> \<not> all_retired (exec (take 26 failed_create_run) (init_state 2 1))
   \<and> all_done (exec (take 27 failed_create_run) (init_state 2 1)) = 1
   \<and> students_finished (exec (take 27 failed_create_run) (init_state 2 1)) = 1
   \<and> num_students (exec (take 27 failed_create_run) (init_state 2 1)) = 2
   \<and> all_done (exec failed_create_run (init_state 2 1)) = 1
   \<and> students_finished (exec failed_create_run (init_state 2 1)) = 1
   \<and> num_students (exec failed_create_run (init_state 2 1)) = 2"
  unfolding failed_create_run_state failed_create_locked_state failed_create_forced_state
  by (simp add: start_2_1 all_retired_def)

section \<open>The forced shutdown assignment\<close>

text \<open>
  C6. The assignment \<open>all_done = 1\<close> that \<open>main\<close> makes under the mutex is idempotent:
  applied twice it gives the same state as applied once; it never touches
  \<open>waiting_students\<close> or \<open>students_finished\<close>; applied to a state in which \<open>all_done\<close> is
  already 1 it changes nothing; and in every run in which every student thread was created,
  \<open>main\<close> reaches this assignment only in such a state, the last student having set the
  flag before.
\<close>

theorem shutdown_force_idempotent:
  "shutdown_force (shutdown_force s) = shutdown_force s
   \<and> all_done (shutdown_force s) = 1
   \<and> waiting_students (shutdown_force s) = waiting_students s
   \<and> students_finished (shutdown_force s) = students_finished s
   \<and> (all_done s = 1 \<longrightarrow> shutdown_force s = s)
   \<and> (main_startup n c alloc_ok ta_created = Inr s0 \<and> main_at (exec sched s0) = M_Locked
        \<and> all_created (exec sched s0)
        \<longrightarrow> shutdown_force (exec sched s0) = exec sched s0)"
proof -
  have same: "shutdown_force x = x" if "all_done x = 1" for x
    using that by (simp add: shutdown_force_def)
  have "shutdown_force (exec sched s0) = exec sched s0"
    if "main_startup n c alloc_ok ta_created = Inr s0" "main_at (exec sched s0) = M_Locked"
      "all_created (exec sched s0)"
  proof -
    have "invariant (exec sched s0)" using that(1) by (rule invariant_run)
    from finished_facts [OF this] that(2,3) show ?thesis by (simp add: same)
  qed
  then show ?thesis by (simp add: same) (simp add: shutdown_force_def)
qed

theorem shutdown_force_idempotent_witness:
  "main_startup 1 1 True True = Inr (init_state 1 1)
   \<and> main_at (exec (cycles_run @ [Student 0, Main, Main]) (init_state 1 1)) = M_Locked
   \<and> all_created (exec (cycles_run @ [Student 0, Main, Main]) (init_state 1 1))
   \<and> all_done (exec (cycles_run @ [Student 0, Main, Main]) (init_state 1 1)) = 1
   \<and> shutdown_force (exec (cycles_run @ [Student 0, Main, Main]) (init_state 1 1))
       = exec (cycles_run @ [Student 0, Main, Main]) (init_state 1 1)
   \<and> all_done (init_state 1 1) = 0
   \<and> shutdown_force (init_state 1 1) \<noteq> init_state 1 1
   \<and> shutdown_force (shutdown_force (init_state 1 1)) = shutdown_force (init_state 1 1)"
proof -
  note a = shutdown_force_idempotent [where s = "init_state 1 1" and n = 1 and c = 1
      and alloc_ok = True and ta_created = True and ?s0.0 = "init_state 1 1"
      and sched = "cycles_run @ [Student 0, Main, Main]"]
  have m: "main_at (exec (cycles_run @ [Student 0, Main, Main]) (init_state 1 1)) = M_Locked"
    by (simp add: cycles_run_def step_simps)
  have d: "all_done (exec (cycles_run @ [Student 0, Main, Main]) (init_state 1 1)) = 1"
    by (simp add: cycles_run_def step_simps)
  have cr: "all_created (exec (cycles_run @ [Student 0, Main, Main]) (init_state 1 1))"
    by (simp add: cycles_run_def step_simps all_created_def)
  from a m cr start_1_1
  have fixed: "shutdown_force (exec (cycles_run @ [Student 0, Main, Main]) (init_state 1 1))
       = exec (cycles_run @ [Student 0, Main, Main]) (init_state 1 1)" by simp
  from a have twice:
    "shutdown_force (shutdown_force (init_state 1 1)) = shutdown_force (init_state 1 1)"
    by simp
  have z: "all_done (init_state 1 1) = 0 \<and> shutdown_force (init_state 1 1) \<noteq> init_state 1 1"
    by (simp add: init_state_def shutdown_force_def)
  show ?thesis using start_1_1 m cr d fixed twice z by simp
qed

section \<open>A hallway without chairs\<close>

text \<open>
  C8. After a start-up with \<open>num_chairs = 0\<close>, in every reachable state:
  \<open>waiting_students\<close> is 0 and no admission and no release has been printed; every chair
  test of every student is a rejection that leaves \<open>waiting_students\<close> at 0 and posts
  nothing; the TA has printed no wake without a student, and until \<open>main\<close> has posted the
  final wake the TA is still in \<open>sem_wait\<close> on a semaphore at 0 (no wake reaches it before
  the forced one); whenever the TA is at its exit test it takes the exit; and the program
  cannot stop before the TA has ended.
\<close>

theorem no_chairs_all_rejected:
  fixes sched :: "tid list"
  assumes "main_startup n 0 alloc_ok ta_created = Inr s0"
  defines "s \<equiv> exec sched s0"
  shows "waiting_students s = 0 \<and> admissions s = 0 \<and> releases s = 0
         \<and> WokeNoStudents \<notin> set (stdout_log s)
         \<and> (\<forall>k i. k < length (student_at s) \<and> student_at s ! k = S_Locked i \<longrightarrow>
               (\<exists>s'. fire (Student k) s = Some s' \<and> student_at s' ! k = S_Loop (Suc i)
                    \<and> rejections s' = Suc (rejections s) \<and> waiting_students s' = 0
                    \<and> students_sem s' = students_sem s))
         \<and> (\<not> final_wake_posted (main_at s) \<longrightarrow> ta_at s = TA_Sleeping \<and> students_sem s = 0)
         \<and> (ta_at s = TA_Locked \<longrightarrow>
               fire TA s = Some (s\<lparr>mutex_locked := False, ta_at := TA_Exited\<rparr>))
         \<and> (stuck s \<longrightarrow> ta_at s = TA_Exited)"
proof -
  have inv: "invariant s" unfolding s_def using assms(1) by (rule invariant_run)
  have c: "num_chairs s = 0" unfolding s_def using run_consts [OF assms(1)] by simp
  from inv c have w: "waiting_students s = 0" by (simp add: invariant_def inv_room_def)
  from inv c have a: "admissions s = 0" by (simp add: invariant_def inv_log_def)
  from inv a w have r: "releases s = 0" by (simp add: invariant_def inv_log_def)
  from inv have nw: "WokeNoStudents \<notin> set (stdout_log s)"
    by (simp add: invariant_def inv_log_def)
  have rej: "\<exists>s'. fire (Student k) s = Some s' \<and> student_at s' ! k = S_Loop (Suc i)
                    \<and> rejections s' = Suc (rejections s) \<and> waiting_students s' = 0
                    \<and> students_sem s' = students_sem s"
    if "k < length (student_at s)" "student_at s ! k = S_Locked i" for k i
    using that w c by (simp add: student_step_def rejections_def count_if_snoc)
  have asleep: "ta_at s = TA_Sleeping \<and> students_sem s = 0"
    if "\<not> final_wake_posted (main_at s)"
  proof -
    from before_final_wake [OF inv that] w have "pending_wakes s = 0" "ta_at s \<noteq> TA_Exited"
      by simp_all
    then show ?thesis by (rule pending_zero)
  qed
  have leave: "fire TA s = Some (s\<lparr>mutex_locked := False, ta_at := TA_Exited\<rparr>)"
    if "ta_at s = TA_Locked"
  proof -
    from asleep that have "final_wake_posted (main_at s)" by auto
    with after_final_wake [OF inv] that have "all_done s = 1" by simp
    with that w show ?thesis by (simp add: ta_step_def)
  qed
  from w a r nw rej asleep leave stuck_done [OF inv] show ?thesis by blast
qed

theorem no_chairs_all_rejected_witness:
  "main_startup 1 0 True True = Inr (init_state 1 0)
   \<and> 0 < length (student_at (exec [Main, Student 0] (init_state 1 0)))
   \<and> student_at (exec [Main, Student 0] (init_state 1 0)) ! 0 = S_Locked 0
   \<and> \<not> final_wake_posted (main_at (exec [Main, Student 0] (init_state 1 0)))
   \<and> ta_at (exec [Main, Student 0] (init_state 1 0)) = TA_Sleeping
   \<and> (\<exists>s'. fire (Student 0) (exec [Main, Student 0] (init_state 1 0)) = Some s'
          \<and> student_at s' ! 0 = S_Loop 1 \<and> waiting_students s' = 0)
   \<and> ta_at (exec empty_room_run (init_state 1 0)) = TA_Locked
   \<and> (\<exists>s'. fire TA (exec empty_room_run (init_state 1 0)) = Some s' \<and> ta_at s' = TA_Exited)
   \<and> stuck (exec (empty_room_run @ [TA, Main]) (init_state 1 0))
   \<and> ta_at (exec (empty_room_run @ [TA, Main]) (init_state 1 0)) = TA_Exited
   \<and> rejections (exec (empty_room_run @ [TA, Main]) (init_state 1 0)) = 3"
proof -
  note a = no_chairs_all_rejected [OF start_1_0, where sched = "[Main, Student 0]"]
  note b = no_chairs_all_rejected [OF start_1_0, where sched = empty_room_run]
  note c = no_chairs_all_rejected [OF start_1_0, where sched = "empty_room_run @ [TA, Main]"]
  have pa: "0 < length (student_at (exec [Main, Student 0] (init_state 1 0)))
      \<and> student_at (exec [Main, Student 0] (init_state 1 0)) ! 0 = S_Locked 0
      \<and> \<not> final_wake_posted (main_at (exec [Main, Student 0] (init_state 1 0)))"
    unfolding first_test_zero_chairs by simp
  with a have ra: "ta_at (exec [Main, Student 0] (init_state 1 0)) = TA_Sleeping" by blast
  from a pa have rj: "\<exists>s'. fire (Student 0) (exec [Main, Student 0] (init_state 1 0)) = Some s'
          \<and> student_at s' ! 0 = S_Loop 1 \<and> waiting_students s' = 0"
    by (metis One_nat_def)
  have pb: "ta_at (exec empty_room_run (init_state 1 0)) = TA_Locked"
    unfolding empty_room_run_state by simp
  with b have rb: "\<exists>s'. fire TA (exec empty_room_run (init_state 1 0)) = Some s'
      \<and> ta_at s' = TA_Exited"
    by simp
  have pc: "stuck (exec (empty_room_run @ [TA, Main]) (init_state 1 0))"
    unfolding empty_room_end
    by (simp add: stuck_def threads_def main_step_def ta_step_def student_step_def)
  with c have rc: "ta_at (exec (empty_room_run @ [TA, Main]) (init_state 1 0)) = TA_Exited"
    by blast
  have n3: "rejections (exec (empty_room_run @ [TA, Main]) (init_state 1 0)) = 3"
    unfolding empty_room_end by (simp add: rejections_def count_if_def)
  show ?thesis using start_1_0 pa ra rj pb rb pc rc n3 by (simp del: exec.simps)
qed

section \<open>One student and one chair\<close>




end
